theory Spec2Isabelle
  imports Main "HOL-Library.Word"
begin

unbundle bit_operations_syntax

section \<open>CanSerial: the socket functions of \<^verbatim>\<open>cansock.c\<close>\<close>

text \<open>
  A shallow embedding of \<^verbatim>\<open>src/cansock.c\<close>: the port table, the frame writer
  \<^verbatim>\<open>CanSockSend\<close>, the virtual-port factory \<^verbatim>\<open>CanVport\<close> with its
  counterpart \<^verbatim>\<open>CanVportClose\<close>, the discovery handler \<^verbatim>\<open>ConfigurePort\<close>,
  one iteration of the multiplexer loop of \<^verbatim>\<open>CanRxThread\<close> and the liveness driver
  \<^verbatim>\<open>CanPing\<close>.

  Conventions.
  \<^item> A C \<^verbatim>\<open>int\<close> is a \<open>32 word\<close> read with \<open>sint\<close>; \<^verbatim>\<open>canid_t\<close> is a
    \<open>32 word\<close> read unsigned; \<^verbatim>\<open>uint16_t\<close> and \<^verbatim>\<open>uint8_t\<close> are \<open>16 word\<close> and
    \<open>8 word\<close>. Conversions between them are \<open>ucast\<close> where C zero-extends or
    truncates.
  \<^item> The \<^verbatim>\<open>ssize_t\<close> results of \<^verbatim>\<open>read\<close> and \<^verbatim>\<open>write\<close> are \<open>int\<close>: the code
    does no arithmetic on them.
  \<^item> The three table indices \<^verbatim>\<open>ports.portsize\<close>, \<^verbatim>\<open>ports.portptr\<close> and
    \<^verbatim>\<open>pingptr\<close> are \<open>nat\<close>: the code starts them at 8, 1 and 0, and only doubles,
    increments, resets to 0, or decrements \<^verbatim>\<open>portptr\<close> under
    \<^verbatim>\<open>0 < pingptr < portptr\<close>.
  \<^item> The two heap arrays \<^verbatim>\<open>ports.p\<close> and \<^verbatim>\<open>ports.VportFd\<close> are lists of length
    \<^verbatim>\<open>portsize\<close>; cells at index \<^verbatim>\<open>portptr\<close> and beyond are allocated but unused.
  \<^item> Every system call is recorded in the field \<open>trace\<close> of the state, in program
    order. What the operating system answers is not decided by the program: it is read
    from an oracle \<open>os\<close>, one function per call, applied to the trace up to and
    including the call. A theorem that quantifies over \<open>os\<close> therefore holds for every
    behaviour of the environment.
  \<^item> Diagnostic output (\<^verbatim>\<open>printf\<close>, \<^verbatim>\<open>fprintf\<close>, \<^verbatim>\<open>perror\<close>) and the mutex
    are not part of the model.
\<close>

subsection \<open>Data\<close>

type_synonym c_int = "32 word"
type_synonym canid_t = "32 word"
type_synonym byte = "8 word"

text \<open>\<^verbatim>\<open>tPortId\<close>, lines 30-37.\<close>

record tPortId =
  port :: "16 word"
  canid :: canid_t
  can_uuid :: "byte list"
  pingcount :: c_int
  active :: c_int
  watch :: c_int

text \<open>\<^verbatim>\<open>struct pollfd\<close> of \<^verbatim>\<open>sys/poll.h\<close>.\<close>

record pollfd =
  fd :: c_int
  events :: "16 word"
  revents :: "16 word"

text \<open>
  \<^verbatim>\<open>tCanFrame\<close> is declared in \<^verbatim>\<open>cansock.h\<close>, which is not among the sources; the
  code reads and writes its members \<^verbatim>\<open>can_id\<close>, \<^verbatim>\<open>can_dlc\<close> and \<^verbatim>\<open>data\<close>. The
  field \<open>data\<close> holds the bytes of the payload buffer that the program has defined.
\<close>

record tCanFrame =
  can_id :: canid_t
  can_dlc :: byte
  data :: "byte list"

text \<open>\<^verbatim>\<open>struct inotify_event\<close>: the members the loop reads.\<close>

record inotify_event =
  wd :: c_int
  mask :: "32 word"

text \<open>
  The macros of \<^verbatim>\<open>cansock.h\<close> that \<^verbatim>\<open>cansock.c\<close> uses. The header is not among
  the sources and the bus identifiers are a policy of the deployment, so they are
  parameters of every function below.
\<close>

record macros =
  PKT_ID_UUID :: c_int
  PKT_ID_SET :: c_int
  PKT_ID_UUID_RESP :: c_int
  PKT_ID_CTL_FILTER :: c_int
  PINGS_BEFORE_DISCONNECT :: c_int
  sizeof_tCanFrame :: nat

text \<open>
  Modelled from the spec: \<^verbatim>\<open>CAN_UUID_SIZE\<close> and \<^verbatim>\<open>CAN_DATA_SIZE\<close> of the missing
  \<^verbatim>\<open>cansock.h\<close>. The spec gives a UUID 6 bytes (and \<^verbatim>\<open>CanTtyName\<close> reads bytes 0 to
  5) and a CAN payload at most 8.
\<close>

definition CAN_UUID_SIZE :: nat where
  "CAN_UUID_SIZE = 6"

definition CAN_DATA_SIZE :: nat where
  "CAN_DATA_SIZE = 8"

text \<open>Constants of the Linux headers.\<close>

definition EINVAL :: c_int where "EINVAL = 22"
definition EIO :: c_int where "EIO = 5"
definition POLLIN :: "16 word" where "POLLIN = 1"
definition O_NONBLOCK :: c_int where "O_NONBLOCK = 0x800"
definition FD_CLOEXEC :: c_int where "FD_CLOEXEC = 1"
definition IN_OPEN :: "32 word" where "IN_OPEN = 0x20"
definition IN_CLOSE :: "32 word" where "IN_CLOSE = 0x18"

text \<open>System calls, as the trace records them, with their arguments.\<close>

datatype event =
    Write_sock c_int tCanFrame
  | Write_pty c_int "byte list"
  | Inotify_rm_watch c_int c_int
  | Unlink string
  | Realloc_p nat
  | Realloc_VportFd nat
  | Openpty
  | Fcntl_getfl c_int
  | Fcntl_setfl c_int c_int
  | Fcntl_setfd c_int c_int
  | Ttyname c_int
  | Symlink "string option" string
  | Chmod "string option" nat
  | Inotify_add_watch c_int string "32 word"
  | Poll nat
  | Read_sock c_int
  | Read_pty c_int
  | Read_inotify c_int
  | Call_PnGetNumber "byte list"
  | Exit c_int

text \<open>
  The answers of the environment. \<open>realloc_ret\<close> is \<open>None\<close> when one of the two
  \<^verbatim>\<open>realloc\<close> calls returns \<^verbatim>\<open>NULL\<close>, and otherwise gives the contents of the fresh
  cells by index. \<open>poll_ret\<close> gives the return value and the \<^verbatim>\<open>revents\<close> that
  \<^verbatim>\<open>poll\<close> stores per index. The \<^verbatim>\<open>read\<close> answers give the return value and the
  buffer after the call; for the inotify descriptor the buffer is the list of events it
  holds (empty when \<^verbatim>\<open>read\<close> returns 0 or less); the byte buffers are given by index,
  so that a buffer has the length of its C array. \<open>PnGetNumber_ret\<close> is the
  result of \<^verbatim>\<open>PnGetNumber\<close> of \<^verbatim>\<open>portnumber.h\<close>, whose code is not
  among the sources.
\<close>

record os =
  write_ret :: "event list \<Rightarrow> int"
  realloc_ret :: "event list \<Rightarrow> ((nat \<Rightarrow> tPortId) \<times> (nat \<Rightarrow> pollfd)) option"
  openpty_ret :: "event list \<Rightarrow> c_int \<times> c_int \<times> c_int"
  fcntl_getfl_ret :: "event list \<Rightarrow> c_int"
  ttyname_ret :: "event list \<Rightarrow> string option"
  symlink_ret :: "event list \<Rightarrow> c_int"
  chmod_ret :: "event list \<Rightarrow> c_int"
  inotify_add_watch_ret :: "event list \<Rightarrow> c_int"
  poll_ret :: "event list \<Rightarrow> c_int \<times> (nat \<Rightarrow> 16 word)"
  read_sock_ret :: "event list \<Rightarrow> int \<times> canid_t \<times> byte \<times> (nat \<Rightarrow> byte)"
  read_pty_ret :: "event list \<Rightarrow> int \<times> (nat \<Rightarrow> byte)"
  read_inotify_ret :: "event list \<Rightarrow> inotify_event list"
  PnGetNumber_ret :: "event list \<Rightarrow> c_int"

text \<open>The file-scope variables, lines 53-60, and the trace of system calls.\<close>

record state =
  ports_p :: "tPortId list"
  ports_VportFd :: "pollfd list"
  ports_portsize :: nat
  ports_portptr :: nat
  threadexit :: c_int
  sock :: c_int
  pingptr :: nat
  Inotify :: c_int
  trace :: "event list"

text \<open>
  How a call ends without returning: \<^verbatim>\<open>exit\<close>, or a read through a pointer that
  does not cover the bytes read.
\<close>

datatype stop = Exited c_int | Bad_read

text \<open>
  A call that can stop returns \<open>Inl\<close> with the reason and the state at that point, or
  \<open>Inr\<close> with its result and the state.
\<close>

type_synonym 'a result = "stop \<times> state + 'a \<times> state"

definition emit :: "event \<Rightarrow> state \<Rightarrow> state" where
  "emit e st = st\<lparr>trace := trace st @ [e]\<rparr>"

subsection \<open>\<^verbatim>\<open>CanSockSend\<close>, lines 411-430\<close>

text \<open>
  The argument \<open>buf\<close> is the \<^verbatim>\<open>data\<close> pointer: \<open>None\<close> is \<^verbatim>\<open>NULL\<close>, and
  \<open>Some bs\<close> points to the bytes \<open>bs\<close>. \<^verbatim>\<open>memcpy\<close> runs only when \<^verbatim>\<open>len\<close> is
  not 0 and then reads \<^verbatim>\<open>len\<close> bytes. The result of \<^verbatim>\<open>write\<close> is converted to
  \<^verbatim>\<open>size_t\<close> and compared with \<^verbatim>\<open>sizeof(frame)\<close>; the conversion is injective on
  the values of \<^verbatim>\<open>ssize_t\<close>, so the comparison is the one on the integers.
\<close>

definition CanSockSend ::
    "macros \<Rightarrow> os \<Rightarrow> canid_t \<Rightarrow> byte \<Rightarrow> byte list option \<Rightarrow> state \<Rightarrow> c_int result" where
  "CanSockSend m os ident len buf st =
     (if 8 < len then Inr (EINVAL, st)
      else if len \<noteq> 0 \<and> (case buf of None \<Rightarrow> True | Some bs \<Rightarrow> length bs < unat len)
      then Inl (Bad_read, st)
      else
        let payload = (if len \<noteq> 0 then take (unat len) (the buf) else []);
            frame = \<lparr>can_id = ident, can_dlc = len, data = payload\<rparr>;
            st1 = emit (Write_sock (sock st) frame) st;
            w = write_ret os (trace st1)
        in if w \<noteq> int (sizeof_tCanFrame m) then Inr (EIO, st1) else Inr (0, st1))"

subsection \<open>\<^verbatim>\<open>CanTtyName\<close>, lines 63-72\<close>

definition hex_digit :: "nat \<Rightarrow> char" where
  "hex_digit n = ''0123456789abcdef'' ! (n mod 16)"

text \<open>\<^verbatim>\<open>%02x\<close> of a byte: two lower-case hexadecimal digits.\<close>

definition hex2 :: "byte \<Rightarrow> string" where
  "hex2 b = [hex_digit (unat b div 16), hex_digit (unat b mod 16)]"

definition CanTtyName :: "tPortId \<Rightarrow> string" where
  "CanTtyName q =
     ''/tmp/ttyCAN0_'' @ hex2 (can_uuid q ! 0) @ hex2 (can_uuid q ! 1) @ hex2 (can_uuid q ! 2)
       @ hex2 (can_uuid q ! 3) @ hex2 (can_uuid q ! 4) @ hex2 (can_uuid q ! 5)"

subsection \<open>\<^verbatim>\<open>CanVportClose\<close>, lines 74-84\<close>

text \<open>
  The function removes the watch and unlinks the symlink. The result of \<^verbatim>\<open>unlink\<close>
  only decides whether \<^verbatim>\<open>perror\<close> prints.
\<close>

definition CanVportClose :: "tPortId \<Rightarrow> state \<Rightarrow> state" where
  "CanVportClose q st =
     (let fname = CanTtyName q;
          st1 = emit (Inotify_rm_watch (Inotify st) (watch q)) st;
          st2 = emit (Unlink fname) st1
      in st2)"

subsection \<open>\<^verbatim>\<open>CanPing\<close>, lines 275-312\<close>

text \<open>
  The loop of lines 295-298 runs for \<^verbatim>\<open>i\<close> from \<^verbatim>\<open>pingptr\<close> while
  \<^verbatim>\<open>i < portptr - 1\<close>; its body does not mention \<^verbatim>\<open>i\<close>: every round copies cell
  \<^verbatim>\<open>pingptr + 1\<close> onto cell \<^verbatim>\<open>pingptr\<close> in both arrays.
\<close>

fun CanPing_shift :: "nat \<Rightarrow> state \<Rightarrow> state" where
  "CanPing_shift 0 st = st"
| "CanPing_shift (Suc n) st =
     CanPing_shift n
       (st\<lparr>ports_p := (ports_p st)[pingptr st := ports_p st ! (pingptr st + 1)],
           ports_VportFd := (ports_VportFd st)[pingptr st := ports_VportFd st ! (pingptr st + 1)]\<rparr>)"

definition CanPing :: "macros \<Rightarrow> os \<Rightarrow> state \<Rightarrow> unit result" where
  "CanPing m os st =
     (if pingptr st = 0 then
        (case CanSockSend m os (PKT_ID_UUID m) 0 None st of
           Inl e \<Rightarrow> Inl e
         | Inr (r, st1) \<Rightarrow> Inr ((), st1\<lparr>pingptr := pingptr st1 + 1\<rparr>))
      else if ports_portptr st \<le> pingptr st then Inr ((), st\<lparr>pingptr := 0\<rparr>)
      else if pingcount (ports_p st ! pingptr st) = 0 then
        (let st1 = CanVportClose (ports_p st ! pingptr st) st;
             st2 = CanPing_shift (ports_portptr st1 - 1 - pingptr st1) st1
         in Inr ((), st2\<lparr>ports_portptr := ports_portptr st2 - 1\<rparr>))
      else
        (let q = ports_p st ! pingptr st;
             st1 = st\<lparr>ports_p := (ports_p st)[pingptr st := q\<lparr>pingcount := pingcount q - 1\<rparr>]\<rparr>
         in if sint (pingcount (ports_p st1 ! pingptr st1)) < 2 then
              (case CanSockSend m os (canid (ports_p st1 ! pingptr st1)) 0 None st1 of
                 Inl e \<Rightarrow> Inl e
               | Inr (r, st2) \<Rightarrow> Inr ((), st2\<lparr>pingptr := pingptr st2 + 1\<rparr>))
            else Inr ((), st1\<lparr>pingptr := pingptr st1 + 1\<rparr>)))"

subsection \<open>\<^verbatim>\<open>CanVport\<close>, lines 86-164\<close>

text \<open>
  The loop of lines 93-99: the first index from 1 below \<^verbatim>\<open>portptr\<close> whose
  \<^verbatim>\<open>port\<close>, promoted from \<^verbatim>\<open>uint16_t\<close> to \<^verbatim>\<open>int\<close>, equals \<^verbatim>\<open>portid\<close>.
\<close>

definition CanVport_lookup :: "c_int \<Rightarrow> state \<Rightarrow> nat option" where
  "CanVport_lookup portid st =
     find (\<lambda>i. ucast (port (ports_p st ! i)) = portid) [1..<ports_portptr st]"

text \<open>Lines 101-110: the arrays double when the table is full; a failed \<^verbatim>\<open>realloc\<close> exits.\<close>

definition CanVport_grow :: "os \<Rightarrow> state \<Rightarrow> unit result" where
  "CanVport_grow os st =
     (if ports_portptr st = ports_portsize st then
        (let n = ports_portsize st * 2;
             st1 = emit (Realloc_VportFd n) (emit (Realloc_p n) (st\<lparr>ports_portsize := n\<rparr>))
         in case realloc_ret os (trace st1) of
              None \<Rightarrow> Inl (Exited 1, emit (Exit 1) st1)
            | Some (gp, gfd) \<Rightarrow>
                Inr ((), st1\<lparr>ports_p := ports_p st1 @ map gp [length (ports_p st1)..<n],
                             ports_VportFd :=
                               ports_VportFd st1 @ map gfd [length (ports_VportFd st1)..<n]\<rparr>))
      else Inr ((), st))"

text \<open>
  Lines 112-163. The cell at \<^verbatim>\<open>portptr\<close> is filled first; each failure returns -1
  and leaves \<^verbatim>\<open>portptr\<close> as it was; only the last line makes the cell a slot of the
  table.
\<close>

definition CanVport_open :: "macros \<Rightarrow> os \<Rightarrow> c_int \<Rightarrow> byte list \<Rightarrow> state \<Rightarrow> c_int result" where
  "CanVport_open m os portid uuid st =
     (let k = ports_portptr st;
          q = (ports_p st ! k)\<lparr>canid := 2 * portid + PKT_ID_CTL_FILTER m,
                                can_uuid := take CAN_UUID_SIZE uuid,
                                port := ucast portid,
                                pingcount := PINGS_BEFORE_DISCONNECT m,
                                active := 0\<rparr>;
          st1 = st\<lparr>ports_p := (ports_p st)[k := q],
                    ports_VportFd := (ports_VportFd st)[k := (ports_VportFd st ! k)\<lparr>revents := 0\<rparr>]\<rparr>;
          st2 = emit Openpty st1;
          (res, mfd, sfd) = openpty_ret os (trace st2)
      in if res \<noteq> 0 then Inr (- 1, st2)
         else
           let st3 = emit (Fcntl_getfl mfd) st2;
               flags = fcntl_getfl_ret os (trace st3)
           in if sint flags < 0 then Inr (- 1, st3)
              else
                let st4 = emit (Fcntl_setfl mfd (flags OR O_NONBLOCK)) st3;
                    st5 = emit (Fcntl_setfd mfd FD_CLOEXEC) st4;
                    st6 = emit (Fcntl_setfd sfd FD_CLOEXEC) st5;
                    st7 = emit (Ttyname sfd) st6;
                    tname = ttyname_ret os (trace st7);
                    fname = CanTtyName q;
                    st8 = emit (Unlink fname) st7;
                    st9 = emit (Symlink tname fname) st8
                in if symlink_ret os (trace st9) \<noteq> 0 then Inr (- 1, st9)
                   else
                     let st10 = emit (Chmod tname 438) st9
                     in if chmod_ret os (trace st10) \<noteq> 0 then Inr (- 1, st10)
                        else
                          let st11 = st10\<lparr>ports_VportFd :=
                                       (ports_VportFd st10)
                                         [k := (ports_VportFd st10 ! k)\<lparr>fd := mfd, events := POLLIN\<rparr>]\<rparr>;
                              st12 = emit (Inotify_add_watch (Inotify st11) fname (IN_OPEN OR IN_CLOSE)) st11;
                              w = inotify_add_watch_ret os (trace st12);
                              st13 = st12\<lparr>ports_p := (ports_p st12)[k := (ports_p st12 ! k)\<lparr>watch := w\<rparr>]\<rparr>;
                              st14 = st13\<lparr>ports_portptr := ports_portptr st13 + 1\<rparr>
                          in Inr (of_nat (ports_portptr st14 - 1), st14))"

definition CanVport :: "macros \<Rightarrow> os \<Rightarrow> c_int \<Rightarrow> byte list \<Rightarrow> state \<Rightarrow> c_int result" where
  "CanVport m os portid uuid st =
     (case CanVport_lookup portid st of
        Some i \<Rightarrow> Inr (of_nat i, st)
      | None \<Rightarrow>
          (case CanVport_grow os st of
             Inl e \<Rightarrow> Inl e
           | Inr (u, st1) \<Rightarrow> CanVport_open m os portid uuid st1))"

subsection \<open>\<^verbatim>\<open>ConfigurePort\<close>, lines 166-184\<close>

text \<open>
  The bytes of an integer object in memory, lowest first (a little-endian host): what a
  \<^verbatim>\<open>uint8_t\<close> pointer to the object reads.
\<close>

definition le_bytes :: "nat \<Rightarrow> 'a::len word \<Rightarrow> byte list" where
  "le_bytes n w = map (\<lambda>k. ucast (drop_bit (8 * k) w)) [0..<n]"

text \<open>
  \<^verbatim>\<open>resp\<close> is a packed struct of a \<^verbatim>\<open>uint16_t\<close> and \<^verbatim>\<open>CAN_UUID_SIZE\<close> bytes. The
  result of \<^verbatim>\<open>CanVport\<close> and the result of \<^verbatim>\<open>CanSockSend\<close> are both dropped.
\<close>

definition ConfigurePort :: "macros \<Rightarrow> os \<Rightarrow> tCanFrame \<Rightarrow> state \<Rightarrow> c_int result" where
  "ConfigurePort m os frame st =
     (let st1 = emit (Call_PnGetNumber (data frame)) st;
          portid = PnGetNumber_ret os (trace st1);
          resp_canid = (ucast (2 * portid + PKT_ID_CTL_FILTER m) :: 16 word);
          resp_u = take CAN_UUID_SIZE (data frame)
      in case CanVport m os portid resp_u st1 of
           Inl e \<Rightarrow> Inl e
         | Inr (r, st2) \<Rightarrow>
             (case CanSockSend m os (PKT_ID_SET m) (of_nat (2 + CAN_UUID_SIZE))
                     (Some (le_bytes 2 resp_canid @ resp_u)) st2 of
                Inl e \<Rightarrow> Inl e
              | Inr (r2, st3) \<Rightarrow> Inr (0, st3)))"

subsection \<open>\<^verbatim>\<open>CanRxThread\<close>, lines 186-273\<close>

text \<open>
  Lines 213-228, a frame that is not a discovery response. The loop stops at the first
  index from 1 below \<^verbatim>\<open>portptr\<close> whose \<^verbatim>\<open>canid\<close> equals \<^verbatim>\<open>frame.can_id - 1\<close>
  (unsigned 32-bit subtraction); when it finds none, \<^verbatim>\<open>i\<close> ends equal to
  \<^verbatim>\<open>portptr\<close> and a discovery request carries the two low bytes of that difference.
  The \<^verbatim>\<open>write\<close> of line 216 is given \<^verbatim>\<open>frame.can_dlc\<close> as its count, unchecked: a
  count beyond the bytes of \<^verbatim>\<open>frame.data\<close> makes it read past the array, and the call
  stops there as a bad read.
\<close>

definition CanRx_lookup :: "tCanFrame \<Rightarrow> state \<Rightarrow> nat option" where
  "CanRx_lookup frame st =
     find (\<lambda>i. canid (ports_p st ! i) = can_id frame - 1) [1..<ports_portptr st]"

definition CanRx_frame :: "macros \<Rightarrow> os \<Rightarrow> tCanFrame \<Rightarrow> state \<Rightarrow> unit result" where
  "CanRx_frame m os frame st =
     (case CanRx_lookup frame st of
        Some i \<Rightarrow>
          if 0 < can_dlc frame \<and> active (ports_p st ! i) \<noteq> 0 \<and>
             length (data frame) < unat (can_dlc frame)
          then Inl (Bad_read, st)
          else
            (let st1 = (if 0 < can_dlc frame \<and> active (ports_p st ! i) \<noteq> 0
                        then emit (Write_pty (fd (ports_VportFd st ! i))
                                     (take (unat (can_dlc frame)) (data frame))) st
                        else st);
                 q = ports_p st1 ! i
             in Inr ((), st1\<lparr>ports_p :=
                            (ports_p st1)[i := q\<lparr>pingcount := PINGS_BEFORE_DISCONNECT m\<rparr>]\<rparr>))
      | None \<Rightarrow>
          (let txaddr = (ucast (can_id frame - 1) :: 16 word)
           in case CanSockSend m os (PKT_ID_UUID m) 2 (Some (le_bytes 2 txaddr)) st of
                Inl e \<Rightarrow> Inl e
              | Inr (r, st1) \<Rightarrow> Inr ((), st1)))"

text \<open>
  Lines 204-230, the CAN socket. The result is \<open>True\<close> when the loop is left through
  \<^verbatim>\<open>break\<close>.
\<close>

definition CanRx_sock :: "macros \<Rightarrow> os \<Rightarrow> state \<Rightarrow> bool result" where
  "CanRx_sock m os st =
     (let st1 = emit (Read_sock (fd (ports_VportFd st ! 0))) st;
          (n, ident, dlc, bytes) = read_sock_ret os (trace st1);
          frame = \<lparr>can_id = ident, can_dlc = dlc, data = map bytes [0..<CAN_DATA_SIZE]\<rparr>
      in if 0 \<le> n then
           if can_id frame = PKT_ID_UUID_RESP m then
             (case ConfigurePort m os frame st1 of
                Inl e \<Rightarrow> Inl e
              | Inr (r, st2) \<Rightarrow> Inr (sint r < 0, st2))
           else
             (case CanRx_frame m os frame st1 of
                Inl e \<Rightarrow> Inl e
              | Inr (u, st2) \<Rightarrow> Inr (False, st2))
         else Inr (False, st1))"

text \<open>
  Lines 233-242, one PTY master. \<^verbatim>\<open>read\<close> is asked for \<^verbatim>\<open>CAN_DATA_SIZE\<close> bytes;
  an answer beyond that would make the loop of line 236 read past \<^verbatim>\<open>rxbuf\<close>.
\<close>

definition CanRx_pty :: "macros \<Rightarrow> os \<Rightarrow> nat \<Rightarrow> state \<Rightarrow> unit result" where
  "CanRx_pty m os i st =
     (if revents (ports_VportFd st ! i) \<noteq> 0 then
        (let st1 = emit (Read_pty (fd (ports_VportFd st ! i))) st;
             (rl, bytes) = read_pty_ret os (trace st1);
             rxbuf = map bytes [0..<CAN_DATA_SIZE]
         in if 0 < rl then
              if int CAN_DATA_SIZE < rl then Inl (Bad_read, st1)
              else
                (let st2 = fold (\<lambda>b s. if b = 0x7E
                                         then s\<lparr>ports_p := (ports_p s)[i := (ports_p s ! i)\<lparr>active := 1\<rparr>]\<rparr>
                                         else s)
                             (take (nat rl) rxbuf) st1
                 in case CanSockSend m os (canid (ports_p st2 ! i)) (of_int rl) (Some rxbuf) st2 of
                      Inl e \<Rightarrow> Inl e
                    | Inr (r, st3) \<Rightarrow> Inr ((), st3))
            else Inr ((), st1))
      else Inr ((), st))"

fun CanRx_ptys :: "macros \<Rightarrow> os \<Rightarrow> nat list \<Rightarrow> state \<Rightarrow> unit result" where
  "CanRx_ptys m os [] st = Inr ((), st)"
| "CanRx_ptys m os (i # js) st =
     (case CanRx_pty m os i st of
        Inl e \<Rightarrow> Inl e
      | Inr (u, st1) \<Rightarrow> CanRx_ptys m os js st1)"

text \<open>
  Lines 249-262, one inotify event: the first slot with its watch descriptor, if any.
  The discovery request of line 255 reads 2 bytes through a pointer to the 4 bytes of
  \<^verbatim>\<open>canid\<close>.
\<close>

definition CanRx_event :: "macros \<Rightarrow> os \<Rightarrow> inotify_event \<Rightarrow> state \<Rightarrow> unit result" where
  "CanRx_event m os ev st =
     (case find (\<lambda>i. watch (ports_p st ! i) = wd ev) [1..<ports_portptr st] of
        None \<Rightarrow> Inr ((), st)
      | Some i \<Rightarrow>
          if mask ev AND IN_OPEN \<noteq> 0 then
            (let st1 = st\<lparr>ports_p := (ports_p st)[i := (ports_p st ! i)\<lparr>active := 1\<rparr>]\<rparr>
             in case CanSockSend m os (PKT_ID_UUID m) 2
                       (Some (le_bytes 4 (canid (ports_p st1 ! i)))) st1 of
                  Inl e \<Rightarrow> Inl e
                | Inr (r, st2) \<Rightarrow> Inr ((), st2))
          else if mask ev AND IN_CLOSE \<noteq> 0 then
            Inr ((), st\<lparr>ports_p := (ports_p st)[i := (ports_p st ! i)\<lparr>active := 0\<rparr>]\<rparr>)
          else Inr ((), st))"

fun CanRx_events :: "macros \<Rightarrow> os \<Rightarrow> inotify_event list \<Rightarrow> state \<Rightarrow> unit result" where
  "CanRx_events m os [] st = Inr ((), st)"
| "CanRx_events m os (ev # evs) st =
     (case CanRx_event m os ev st of
        Inl e \<Rightarrow> Inl e
      | Inr (u, st1) \<Rightarrow> CanRx_events m os evs st1)"

text \<open>Lines 246-264: the inotify descriptor is read in every iteration.\<close>

definition CanRx_inotify :: "macros \<Rightarrow> os \<Rightarrow> state \<Rightarrow> unit result" where
  "CanRx_inotify m os st =
     (let st1 = emit (Read_inotify (Inotify st)) st
      in CanRx_events m os (read_inotify_ret os (trace st1)) st1)"

text \<open>
  Lines 198-245: \<^verbatim>\<open>poll\<close> stores \<^verbatim>\<open>revents\<close> in the first \<^verbatim>\<open>portptr\<close> cells. When
  it returns more than 0, the CAN socket is served if its \<^verbatim>\<open>revents\<close> is not 0, and
  the PTY masters are served in the \<^verbatim>\<open>else\<close> branch of that test.
\<close>

definition CanRx_poll :: "os \<Rightarrow> state \<Rightarrow> c_int \<times> state" where
  "CanRx_poll os st =
     (let st1 = emit (Poll (ports_portptr st)) st;
          (ret, rev) = poll_ret os (trace st1)
      in (ret, st1\<lparr>ports_VportFd :=
                     map (\<lambda>i. (ports_VportFd st1 ! i)\<lparr>revents := rev i\<rparr>) [0..<ports_portptr st1]
                       @ drop (ports_portptr st1) (ports_VportFd st1)\<rparr>))"

definition CanRx_ready :: "macros \<Rightarrow> os \<Rightarrow> c_int \<Rightarrow> state \<Rightarrow> bool result" where
  "CanRx_ready m os ret st =
     (if 0 < sint ret then
        if revents (ports_VportFd st ! 0) \<noteq> 0 then CanRx_sock m os st
        else
          (case CanRx_ptys m os [1..<ports_portptr st] st of
             Inl e \<Rightarrow> Inl e
           | Inr (u, st1) \<Rightarrow> Inr (False, st1))
      else Inr (False, st))"

text \<open>One iteration of the \<^verbatim>\<open>while\<close> loop; \<open>True\<close> when it is left through \<^verbatim>\<open>break\<close>.\<close>

definition CanRxThread_iter :: "macros \<Rightarrow> os \<Rightarrow> state \<Rightarrow> bool result" where
  "CanRxThread_iter m os st =
     (let (ret, st1) = CanRx_poll os st
      in case CanRx_ready m os ret st1 of
           Inl e \<Rightarrow> Inl e
         | Inr (brk, st2) \<Rightarrow>
             if brk then Inr (True, st2)
             else
               (case CanRx_inotify m os st2 of
                  Inl e \<Rightarrow> Inl e
                | Inr (u, st3) \<Rightarrow> Inr (False, st3)))"

text \<open>Lines 267-271: on leaving the loop every slot is passed to \<^verbatim>\<open>CanVportClose\<close>.\<close>

definition CanRxThread_close :: "state \<Rightarrow> state" where
  "CanRxThread_close st =
     fold (\<lambda>i s. CanVportClose (ports_p s ! i) s) [1..<ports_portptr st] st"

subsection \<open>The table after \<^verbatim>\<open>CanSockInit\<close>, lines 373-387\<close>

text \<open>
  \<^verbatim>\<open>ports.p\<close> comes from \<^verbatim>\<open>malloc\<close> with whatever contents \<open>gp\<close> the memory has;
  \<^verbatim>\<open>ports.VportFd\<close> is zeroed and its cell 0 is the CAN socket.
\<close>

definition init_state :: "c_int \<Rightarrow> c_int \<Rightarrow> (nat \<Rightarrow> tPortId) \<Rightarrow> state" where
  "init_state s ino gp =
     \<lparr>ports_p = map gp [0..<8],
      ports_VportFd = (replicate 8 \<lparr>fd = 0, events = 0, revents = 0\<rparr>)
                        [0 := \<lparr>fd = s, events = POLLIN, revents = 0\<rparr>],
      ports_portsize = 8,
      ports_portptr = 1,
      threadexit = 0,
      sock = s,
      pingptr = 0,
      Inotify = ino,
      trace = []\<rparr>"

subsection \<open>Observations and drivers\<close>

text \<open>The slots in use: the first \<^verbatim>\<open>portptr\<close> cells of \<^verbatim>\<open>ports.p\<close>, cell 0 included.\<close>

definition table :: "state \<Rightarrow> tPortId list" where
  "table st = take (ports_portptr st) (ports_p st)"

text \<open>The arrays have the allocated length and the used part lies within them.\<close>

definition table_ok :: "state \<Rightarrow> bool" where
  "table_ok st \<longleftrightarrow>
     0 < ports_portptr st \<and> ports_portptr st \<le> ports_portsize st \<and>
     length (ports_p st) = ports_portsize st \<and> length (ports_VportFd st) = ports_portsize st"

text \<open>No two slots of the table hold the same port number.\<close>

definition ports_distinct :: "state \<Rightarrow> bool" where
  "ports_distinct st \<longleftrightarrow> distinct (map (\<lambda>i. port (ports_p st ! i)) [1..<ports_portptr st])"

text \<open>The state a call ends in, whether it returns or stops.\<close>

definition state_of :: "'a result \<Rightarrow> state" where
  "state_of r = (case r of Inl (e, s) \<Rightarrow> s | Inr (x, s) \<Rightarrow> s)"

text \<open>The events a call has added to the trace.\<close>

definition added :: "state \<Rightarrow> state \<Rightarrow> event list" where
  "added st st' = drop (length (trace st)) (trace st')"

fun is_read :: "event \<Rightarrow> bool" where
  "is_read (Read_sock s) = True"
| "is_read (Read_pty s) = True"
| "is_read (Read_inotify s) = True"
| "is_read e = False"

text \<open>The writes to a PTY master.\<close>

fun is_pty_write :: "event \<Rightarrow> bool" where
  "is_pty_write (Write_pty s bs) = True"
| "is_pty_write e = False"

text \<open>
  Between two states the trace has grown without a write to a PTY master, and every cell
  has kept its ping credit.
\<close>

definition no_dispatch :: "state \<Rightarrow> state \<Rightarrow> bool" where
  "no_dispatch st st' \<longleftrightarrow>
     (\<exists>es. trace st' = trace st @ es \<and> filter is_pty_write es = []) \<and>
     (\<forall>j. pingcount (ports_p st' ! j) = pingcount (ports_p st ! j))"

text \<open>
  The iteration of \<^verbatim>\<open>CanRxThread\<close> that starts in \<open>st\<close> reads \<open>frame\<close> from the CAN
  socket and takes it for a data frame: \<^verbatim>\<open>poll\<close> returns more than 0 with
  \<^verbatim>\<open>revents\<close> of the socket not 0 (lines 201-202), \<^verbatim>\<open>read\<close> returns 0 or more and
  leaves \<open>frame\<close> in the buffer (line 204), and its identifier is not
  \<^verbatim>\<open>PKT_ID_UUID_RESP\<close> (lines 207, 212).
\<close>

definition CanRx_reads_frame :: "macros \<Rightarrow> os \<Rightarrow> state \<Rightarrow> tCanFrame \<Rightarrow> bool" where
  "CanRx_reads_frame m os st frame \<longleftrightarrow>
     0 < sint (fst (poll_ret os (trace st @ [Poll (ports_portptr st)]))) \<and>
     snd (poll_ret os (trace st @ [Poll (ports_portptr st)])) 0 \<noteq> 0 \<and>
     (case read_sock_ret os (trace st @ [Poll (ports_portptr st),
                                         Read_sock (fd (ports_VportFd st ! 0))]) of
        (n, ident, dlc, bytes) \<Rightarrow>
          0 \<le> n \<and> ident \<noteq> PKT_ID_UUID_RESP m \<and>
          frame = \<lparr>can_id = ident, can_dlc = dlc, data = map bytes [0..<CAN_DATA_SIZE]\<rparr>)"

text \<open>
  Between two states the trace has grown, and the reads among the new events are \<open>rs\<close>,
  in this order.
\<close>

definition reads_added :: "state \<Rightarrow> state \<Rightarrow> event list \<Rightarrow> bool" where
  "reads_added st st' rs \<longleftrightarrow> (\<exists>es. trace st' = trace st @ es \<and> filter is_read es = rs)"

text \<open>
  The frame of line 182 for the port number \<open>portid\<close> and the UUID in \<open>frame\<close>: the
  identifier \<^verbatim>\<open>PKT_ID_SET\<close> and the 8 bytes of \<^verbatim>\<open>resp\<close>.
\<close>

definition SET_frame :: "macros \<Rightarrow> c_int \<Rightarrow> tCanFrame \<Rightarrow> tCanFrame" where
  "SET_frame m portid frame =
     \<lparr>can_id = PKT_ID_SET m, can_dlc = 8,
      data = le_bytes 2 (ucast (2 * portid + PKT_ID_CTL_FILTER m) :: 16 word)
               @ take CAN_UUID_SIZE (data frame)\<rparr>"

text \<open>The targeted ping of line 306 for the slot at index \<open>c\<close>.\<close>

definition ping_frame :: "state \<Rightarrow> nat \<Rightarrow> event" where
  "ping_frame st c =
     Write_sock (sock st) \<lparr>can_id = canid (ports_p st ! c), can_dlc = 0, data = []\<rparr>"

text \<open>
  \<open>k\<close> successive invocations of \<^verbatim>\<open>CanPing\<close> that find the cursor at slot \<open>c\<close>: what
  happens to one slot over the rounds of the timer, the invocations for the other slots
  left out.
\<close>

fun CanPing_slot :: "macros \<Rightarrow> os \<Rightarrow> nat \<Rightarrow> nat \<Rightarrow> state \<Rightarrow> unit result" where
  "CanPing_slot m os c 0 st = Inr ((), st)"
| "CanPing_slot m os c (Suc k) st =
     (case CanPing m os (st\<lparr>pingptr := c\<rparr>) of
        Inl e \<Rightarrow> Inl e
      | Inr (u, st1) \<Rightarrow> CanPing_slot m os c k st1)"

text \<open>\<open>n\<close> successive invocations of \<^verbatim>\<open>CanPing\<close>, as the timer makes them.\<close>

fun CanPing_times :: "macros \<Rightarrow> os \<Rightarrow> nat \<Rightarrow> state \<Rightarrow> unit result" where
  "CanPing_times m os 0 st = Inr ((), st)"
| "CanPing_times m os (Suc n) st =
     (case CanPing m os st of
        Inl e \<Rightarrow> Inl e
      | Inr (u, st1) \<Rightarrow> CanPing_times m os n st1)"

text \<open>
  At most \<open>n\<close> iterations of the \<^verbatim>\<open>while\<close> loop of \<^verbatim>\<open>CanRxThread\<close>: the loop ends
  when \<^verbatim>\<open>threadexit\<close> is set or through \<^verbatim>\<open>break\<close>.
\<close>

fun CanRxThread_iters :: "macros \<Rightarrow> os \<Rightarrow> nat \<Rightarrow> state \<Rightarrow> unit result" where
  "CanRxThread_iters m os 0 st = Inr ((), st)"
| "CanRxThread_iters m os (Suc n) st =
     (if threadexit st \<noteq> 0 then Inr ((), st)
      else case CanRxThread_iter m os st of
             Inl e \<Rightarrow> Inl e
           | Inr (brk, st1) \<Rightarrow> if brk then Inr ((), st1) else CanRxThread_iters m os n st1)"

text \<open>
  The states the program can be in between two steps, from the table as
  \<^verbatim>\<open>CanSockInit\<close> leaves it: a step is an iteration of the worker, an invocation of
  \<^verbatim>\<open>CanPing\<close> by the timer, or a call of \<^verbatim>\<open>CanSockSend\<close> from outside. The mutex
  serialises the steps; an iteration of the worker counts as one step that starts when
  \<^verbatim>\<open>poll\<close> returns, and what another thread does while the worker waits in
  \<^verbatim>\<open>poll\<close> is a step before it.
\<close>

inductive reachable :: "macros \<Rightarrow> os \<Rightarrow> state \<Rightarrow> bool" for m :: macros and os :: os where
  start: "reachable m os (init_state s ino gp)"
| worker: "reachable m os st \<Longrightarrow> threadexit st = 0 \<Longrightarrow>
           CanRxThread_iter m os st = Inr (b, st') \<Longrightarrow> reachable m os st'"
| timer: "reachable m os st \<Longrightarrow> CanPing m os st = Inr (u, st') \<Longrightarrow> reachable m os st'"
| sender: "reachable m os st \<Longrightarrow> CanSockSend m os ident len buf st = Inr (r, st') \<Longrightarrow>
           reachable m os st'"

subsection \<open>Example inputs\<close>

definition ex_macros :: macros where
  "ex_macros = \<lparr>PKT_ID_UUID = 0x321, PKT_ID_SET = 0x322, PKT_ID_UUID_RESP = 0x323,
                 PKT_ID_CTL_FILTER = 0x180, PINGS_BEFORE_DISCONNECT = 3, sizeof_tCanFrame = 16\<rparr>"

definition ex_cell :: tPortId where
  "ex_cell = \<lparr>port = 0, canid = 0, can_uuid = [], pingcount = 0, active = 0, watch = 0\<rparr>"

definition ex_pollfd :: pollfd where
  "ex_pollfd = \<lparr>fd = 0, events = 0, revents = 0\<rparr>"

text \<open>
  An environment in which every call succeeds; \<^verbatim>\<open>PnGetNumber\<close> answers the first
  byte of the UUID it is given.
\<close>

definition ex_os :: os where
  "ex_os = \<lparr>write_ret = (\<lambda>tr. 16),
            realloc_ret = (\<lambda>tr. Some (\<lambda>i. ex_cell, \<lambda>i. ex_pollfd)),
            openpty_ret = (\<lambda>tr. (0, of_nat (length tr), of_nat (length tr) + 1)),
            fcntl_getfl_ret = (\<lambda>tr. 2),
            ttyname_ret = (\<lambda>tr. Some ''/dev/pts/1''),
            symlink_ret = (\<lambda>tr. 0),
            chmod_ret = (\<lambda>tr. 0),
            inotify_add_watch_ret = (\<lambda>tr. of_nat (length tr)),
            poll_ret = (\<lambda>tr. (0, \<lambda>i. 0)),
            read_sock_ret = (\<lambda>tr. (- 1, 0, 0, \<lambda>i. 0)),
            read_pty_ret = (\<lambda>tr. (0, \<lambda>i. 0)),
            read_inotify_ret = (\<lambda>tr. []),
            PnGetNumber_ret =
              (\<lambda>tr. case last tr of Call_PnGetNumber bs \<Rightarrow> ucast (hd bs) | _ \<Rightarrow> 0)\<rparr>"

text \<open>A slot for port number \<open>n\<close> with ping credit \<open>c\<close>, attached.\<close>

definition ex_slot :: "16 word \<Rightarrow> c_int \<Rightarrow> tPortId" where
  "ex_slot n c = \<lparr>port = n, canid = 2 * ucast n + 0x180, can_uuid = [ucast n, 2, 3, 4, 5, 6],
                  pingcount = c, active = 1, watch = ucast n + 100\<rparr>"

definition ex_master :: "c_int \<Rightarrow> pollfd" where
  "ex_master n = \<lparr>fd = n, events = POLLIN, revents = 0\<rparr>"

text \<open>
  A table of three slots, for the port numbers 1, 2 and 3; the first has no credit left
  and the cursor of \<^verbatim>\<open>CanPing\<close> is on it.
\<close>

definition ex_state :: state where
  "ex_state =
     \<lparr>ports_p = [ex_cell, ex_slot 1 0, ex_slot 2 3, ex_slot 3 3,
                 ex_cell, ex_cell, ex_cell, ex_cell],
      ports_VportFd = [ex_master 3, ex_master 21, ex_master 22, ex_master 23,
                       ex_pollfd, ex_pollfd, ex_pollfd, ex_pollfd],
      ports_portsize = 8, ports_portptr = 4, threadexit = 0, sock = 3, pingptr = 1,
      Inotify = 4, trace = []\<rparr>"

text \<open>A discovery response whose UUID starts with the byte \<open>b\<close>.\<close>

definition ex_resp :: "byte \<Rightarrow> tCanFrame" where
  "ex_resp b = \<lparr>can_id = 0x323, can_dlc = 6, data = [b, 2, 3, 4, 5, 6, 0, 0]\<rparr>"

text \<open>A frame with the payload \<^verbatim>\<open>ABC\<close> and the identifier \<open>i\<close>.\<close>

definition ex_frame :: "canid_t \<Rightarrow> tCanFrame" where
  "ex_frame i = \<lparr>can_id = i, can_dlc = 3, data = [0x41, 0x42, 0x43, 0, 0, 0, 0, 0]\<rparr>"

text \<open>A full table: seven slots, \<^verbatim>\<open>portptr\<close> equal to \<^verbatim>\<open>portsize\<close>.\<close>

definition ex_full :: state where
  "ex_full =
     \<lparr>ports_p = [ex_cell, ex_slot 1 3, ex_slot 2 3, ex_slot 3 3,
                 ex_slot 4 3, ex_slot 5 3, ex_slot 6 3, ex_slot 7 3],
      ports_VportFd = [ex_master 3, ex_master 21, ex_master 22, ex_master 23,
                       ex_master 24, ex_master 25, ex_master 26, ex_master 27],
      ports_portsize = 8, ports_portptr = 8, threadexit = 0, sock = 3, pingptr = 0,
      Inotify = 4, trace = []\<rparr>"

text \<open>An environment in which \<^verbatim>\<open>openpty\<close> fails.\<close>

definition ex_os_nopty :: os where
  "ex_os_nopty = ex_os\<lparr>openpty_ret := \<lambda>tr. (- 1, 0, 0)\<rparr>"

text \<open>The table right after \<^verbatim>\<open>CanSockInit\<close>.\<close>

definition ex_init :: state where
  "ex_init = init_state 3 4 (\<lambda>i. ex_cell)"

text \<open>
  An environment in which \<^verbatim>\<open>poll\<close> reports every descriptor readable and the CAN
  socket delivers a frame with the identifier \<open>0x183\<close> and the payload \<^verbatim>\<open>ABC\<close>.
\<close>

definition ex_os_busy :: os where
  "ex_os_busy = ex_os\<lparr>poll_ret := \<lambda>tr. (2, \<lambda>i. POLLIN),
                       read_sock_ret :=
                         \<lambda>tr. (16, 0x183, 3, \<lambda>i. [0x41, 0x42, 0x43, 0, 0, 0, 0, 0] ! i),
                       read_pty_ret := \<lambda>tr. (1, \<lambda>i. 0x7E)\<rparr>"

text \<open>An environment in which \<^verbatim>\<open>poll\<close> reports only the PTY master of slot 2 readable.\<close>

definition ex_os_pty :: os where
  "ex_os_pty = ex_os\<lparr>poll_ret := \<lambda>tr. (1, \<lambda>i. if i = 2 then POLLIN else 0),
                      read_pty_ret := \<lambda>tr. (1, \<lambda>i. 0x7E)\<rparr>"

text \<open>
  An environment in which \<^verbatim>\<open>poll\<close> reports the CAN socket readable and every read
  of it delivers a discovery response; the UUID of the \<open>k\<close>-th response starts with the
  byte \<open>k\<close>, which is also the port number that \<^verbatim>\<open>PnGetNumber\<close> answers.
\<close>

definition ex_os_discover :: os where
  "ex_os_discover =
     ex_os\<lparr>poll_ret := \<lambda>tr. (1, \<lambda>i. if i = 0 then POLLIN else 0),
           read_sock_ret :=
             \<lambda>tr. (16, 0x323, 6,
                    \<lambda>i. if i = 0 then of_nat (length (filter (\<lambda>e. e = Read_sock 3) tr))
                         else of_nat (i + 1))\<rparr>"

text \<open>
  From the table as \<^verbatim>\<open>CanSockInit\<close> leaves it: three iterations of the worker, which
  handle the discovery responses for the port numbers 1, 2 and 3, then \<open>n\<close> invocations
  of \<^verbatim>\<open>CanPing\<close>, with no frame from the nodes in between.
\<close>

definition ex_run :: "nat \<Rightarrow> unit result" where
  "ex_run n =
     (case CanRxThread_iters ex_macros ex_os_discover 3 ex_init of
        Inl e \<Rightarrow> Inl e
      | Inr (u, st) \<Rightarrow> CanPing_times ex_macros ex_os_discover n st)"

text \<open>
  An environment in which \<^verbatim>\<open>poll\<close> reports the CAN socket alone readable and the
  socket delivers a frame with the identifier \<open>ident\<close> and the payload \<^verbatim>\<open>ABC\<close>.
\<close>

definition ex_os_frame :: "canid_t \<Rightarrow> os" where
  "ex_os_frame ident =
     ex_os\<lparr>poll_ret := \<lambda>tr. (1, \<lambda>i. if i = 0 then POLLIN else 0),
           read_sock_ret :=
             \<lambda>tr. (16, ident, 3, \<lambda>i. [0x41, 0x42, 0x43, 0, 0, 0, 0, 0] ! i)\<rparr>"

text \<open>An environment in which \<^verbatim>\<open>realloc\<close> fails.\<close>

definition ex_os_nomem :: os where
  "ex_os_nomem = ex_os\<lparr>realloc_ret := \<lambda>tr. None\<rparr>"

section \<open>Properties\<close>

subsection \<open>Auxiliary facts\<close>

lemma sint_dec:
  fixes v :: "32 word"
  assumes "0 < sint v"
  shows "sint (v - 1) = sint v - 1"
proof -
  have "sint v < 2 ^ 31" using sint_lt [of v] by simp
  then show ?thesis using assms
    by (simp add: sint_word_ariths signed_take_bit_int_eq_self)
qed

lemma find_upt_None:
  "find P [a..<b] = None \<longleftrightarrow> (\<forall>j. a \<le> j \<and> j < b \<longrightarrow> \<not> P j)"
  by (auto simp: find_None_iff)

lemma find_upt_Some:
  "find P [a..<b] = Some i \<longleftrightarrow> a \<le> i \<and> i < b \<and> P i \<and> (\<forall>j. a \<le> j \<and> j < i \<longrightarrow> \<not> P j)"
proof
  assume "find P [a..<b] = Some i"
  then obtain k where k: "k < b - a" "P (a + k)" "i = a + k" "\<forall>j<k. \<not> P (a + j)"
    by (auto simp: find_Some_iff)
  have "\<not> P j" if "a \<le> j" "j < i" for j
  proof -
    have "j - a < k" using that k(3) by arith
    with k(4) have "\<not> P (a + (j - a))" by blast
    with that show ?thesis by simp
  qed
  with k show "a \<le> i \<and> i < b \<and> P i \<and> (\<forall>j. a \<le> j \<and> j < i \<longrightarrow> \<not> P j)" by auto
next
  assume r: "a \<le> i \<and> i < b \<and> P i \<and> (\<forall>j. a \<le> j \<and> j < i \<longrightarrow> \<not> P j)"
  then have "i - a < length [a..<b] \<and> P ([a..<b] ! (i - a)) \<and> i = [a..<b] ! (i - a) \<and>
      (\<forall>j<i - a. \<not> P ([a..<b] ! j))"
    by auto
  then show "find P [a..<b] = Some i"
    unfolding find_Some_iff by blast
qed

subsection \<open>\<^verbatim>\<open>CanPing\<close>: what one invocation does\<close>

text \<open>The loop of lines 295-298 amounts to at most one copy.\<close>

lemma CanPing_shift_eq:
  "CanPing_shift n st =
     (if n = 0 then st
      else st\<lparr>ports_p := (ports_p st)[pingptr st := ports_p st ! (pingptr st + 1)],
              ports_VportFd :=
                (ports_VportFd st)[pingptr st := ports_VportFd st ! (pingptr st + 1)]\<rparr>)"
proof (induction n arbitrary: st)
  case 0
  show ?case by simp
next
  case (Suc n)
  show ?case by (simp add: Suc.IH)
qed

text \<open>The branch of lines 291-302, on a slot without credit.\<close>

lemma CanPing_reap:
  assumes "pingptr st \<noteq> 0" "pingptr st < ports_portptr st"
    and "pingcount (ports_p st ! pingptr st) = 0"
  shows "CanPing m os st =
     Inr ((), (if pingptr st + 1 < ports_portptr st
               then st\<lparr>ports_p := (ports_p st)[pingptr st := ports_p st ! (pingptr st + 1)],
                       ports_VportFd :=
                         (ports_VportFd st)[pingptr st := ports_VportFd st ! (pingptr st + 1)]\<rparr>
               else st)
              \<lparr>ports_portptr := ports_portptr st - 1,
               trace := trace st @
                 [Inotify_rm_watch (Inotify st) (watch (ports_p st ! pingptr st)),
                  Unlink (CanTtyName (ports_p st ! pingptr st))]\<rparr>)"
  using assms
  by (auto simp add: CanPing_def CanVportClose_def emit_def Let_def CanPing_shift_eq)

text \<open>The branch of lines 303-308, on a slot with credit.\<close>

lemma CanPing_dec:
  assumes "pingptr st \<noteq> 0" "pingptr st < ports_portptr st" "pingptr st < length (ports_p st)"
    and "pingcount (ports_p st ! pingptr st) \<noteq> 0"
  shows "CanPing m os st =
     Inr ((), st\<lparr>ports_p := (ports_p st)[pingptr st :=
                     (ports_p st ! pingptr st)
                       \<lparr>pingcount := pingcount (ports_p st ! pingptr st) - 1\<rparr>],
                 pingptr := pingptr st + 1,
                 trace := trace st @
                   (if sint (pingcount (ports_p st ! pingptr st) - 1) < 2
                    then [ping_frame st (pingptr st)]
                    else [])\<rparr>)"
  using assms
  by (auto simp add: CanPing_def CanSockSend_def emit_def Let_def ping_frame_def)

lemma CanPing_slot_cycle:
  assumes "c \<noteq> 0" "c < ports_portptr st" "c < length (ports_p st)"
    and "sint (pingcount (ports_p st ! c)) = int n" "k \<le> n"
  shows "CanPing_slot m os c k st =
     Inr ((), st\<lparr>ports_p := (ports_p st)[c :=
                     (ports_p st ! c)\<lparr>pingcount := pingcount (ports_p st ! c) - of_nat k\<rparr>],
                 pingptr := (if k = 0 then pingptr st else c + 1),
                 trace := trace st @ replicate (k - (n - 2)) (ping_frame st c)\<rparr>)"
  using assms
proof (induction k arbitrary: st n)
  case 0
  then show ?case by simp
next
  case (Suc k)
  let ?s = "st\<lparr>pingptr := c\<rparr>"
  let ?v = "pingcount (ports_p st ! c)"
  let ?t = "st\<lparr>ports_p := (ports_p st)[c := (ports_p st ! c)\<lparr>pingcount := ?v - 1\<rparr>],
               pingptr := c + 1,
               trace := trace st @ (if sint (?v - 1) < 2 then [ping_frame st c] else [])\<rparr>"
  obtain n' where n': "n = Suc n'" using Suc.prems(5) by (cases n) auto
  have nz: "?v \<noteq> 0" using Suc.prems(4) n' by auto
  have pos: "0 < sint ?v" using Suc.prems(4) n' by simp
  have step: "CanPing m os ?s = Inr ((), ?t)"
    using CanPing_dec [of ?s m os] Suc.prems(1-3) nz by (simp add: ping_frame_def)
  have sv: "sint (?v - 1) = int n'" using sint_dec [OF pos] Suc.prems(4) n' by simp
  have IH: "CanPing_slot m os c k ?t =
     Inr ((), ?t\<lparr>ports_p := (ports_p ?t)[c :=
                     (ports_p ?t ! c)\<lparr>pingcount := pingcount (ports_p ?t ! c) - of_nat k\<rparr>],
                 pingptr := (if k = 0 then pingptr ?t else c + 1),
                 trace := trace ?t @ replicate (k - (n' - 2)) (ping_frame ?t c)\<rparr>)"
    apply (rule Suc.IH [of ?t n'])
    using Suc.prems n' sv by simp_all
  have pf: "ping_frame ?t c = ping_frame st c"
    using Suc.prems(3) by (simp add: ping_frame_def)
  have cnt: "(if sint (?v - 1) < 2 then [ping_frame st c] else [])
               @ replicate (k - (n' - 2)) (ping_frame st c)
             = replicate (Suc k - (n - 2)) (ping_frame st c)"
  proof (cases "n' < 2")
    case True
    then have "Suc k - (n - 2) = Suc (k - (n' - 2))" using n' Suc.prems(5) by auto
    then show ?thesis using True sv by simp
  next
    case False
    then have "Suc k - (n - 2) = k - (n' - 2)" using n' Suc.prems(5) by auto
    then show ?thesis using False sv by simp
  qed
  show ?case
    apply (simp only: CanPing_slot.simps step sum.case prod.case IH)
    using Suc.prems(3) cnt pf by (simp add: algebra_simps)
qed

subsection \<open>\<^verbatim>\<open>CanRxThread\<close>: a frame that is not a discovery response\<close>

lemma CanRx_frame_Some:
  assumes "CanRx_lookup frame st = Some i"
    and "can_dlc frame = 0 \<or> active (ports_p st ! i) = 0 \<or>
         unat (can_dlc frame) \<le> length (data frame)"
  shows "CanRx_frame m os frame st =
     Inr ((), st\<lparr>trace := trace st @
                   (if 0 < can_dlc frame \<and> active (ports_p st ! i) \<noteq> 0
                    then [Write_pty (fd (ports_VportFd st ! i))
                            (take (unat (can_dlc frame)) (data frame))]
                    else []),
                 ports_p := (ports_p st)[i :=
                     (ports_p st ! i)\<lparr>pingcount := PINGS_BEFORE_DISCONNECT m\<rparr>]\<rparr>)"
  using assms by (auto simp add: CanRx_frame_def emit_def Let_def)

text \<open>A matching frame whose \<^verbatim>\<open>can_dlc\<close> exceeds its data, for an attached slot.\<close>

lemma CanRx_frame_over_read:
  assumes "CanRx_lookup frame st = Some i"
    and "0 < can_dlc frame" "active (ports_p st ! i) \<noteq> 0"
    and "length (data frame) < unat (can_dlc frame)"
  shows "CanRx_frame m os frame st = Inl (Bad_read, st)"
  using assms by (simp add: CanRx_frame_def)

lemma CanRx_frame_None:
  assumes "CanRx_lookup frame st = None"
  shows "CanRx_frame m os frame st =
     Inr ((), st\<lparr>trace := trace st @
                   [Write_sock (sock st)
                      \<lparr>can_id = PKT_ID_UUID m, can_dlc = 2,
                       data = le_bytes 2 (ucast (can_id frame - 1) :: 16 word)\<rparr>]\<rparr>)"
  using assms by (simp add: CanRx_frame_def CanSockSend_def emit_def Let_def le_bytes_def)

subsection \<open>\<^verbatim>\<open>CanVport\<close> and \<^verbatim>\<open>ConfigurePort\<close>\<close>

lemma CanVport_existing:
  assumes "CanVport_lookup portid st = Some i"
  shows "CanVport m os portid uuid st = Inr (of_nat i, st)"
  using assms by (simp add: CanVport_def)

lemma CanVport_open_returns:
  "\<exists>r st'. CanVport_open m os portid uuid st = Inr (r, st')"
  by (simp add: CanVport_open_def Let_def split: prod.splits)

text \<open>\<^verbatim>\<open>CanVport\<close> does not return only when the table is full and \<^verbatim>\<open>realloc\<close> fails.\<close>

lemma CanVport_stops:
  assumes "CanVport m os portid uuid st = Inl (e, s)"
  shows "e = Exited 1 \<and> ports_portptr st = ports_portsize st \<and>
         s = st\<lparr>ports_portsize := ports_portsize st * 2,
                trace := trace st @ [Realloc_p (ports_portsize st * 2),
                                     Realloc_VportFd (ports_portsize st * 2), Exit 1]\<rparr>"
proof (cases "CanVport_lookup portid st")
  case (Some i)
  then show ?thesis using assms by (simp add: CanVport_def)
next
  case None
  show ?thesis
  proof (cases "CanVport_grow os st")
    case (Inl a)
    then have "a = (e, s)" using assms None by (simp add: CanVport_def)
    then show ?thesis using Inl
      by (auto simp add: CanVport_grow_def Let_def emit_def split: if_splits option.splits)
  next
    case (Inr b)
    obtain u st1 where "b = (u, st1)" by (cases b)
    then have "CanVport_open m os portid uuid st1 = Inl (e, s)"
      using assms None Inr by (simp add: CanVport_def)
    then show ?thesis using CanVport_open_returns [of m os portid uuid st1] by auto
  qed
qed

lemma CanSockSend_covered:
  assumes "len \<le> 8" "unat len \<le> length bs"
  shows "CanSockSend m os ident len (Some bs) st =
     Inr (if write_ret os (trace st @
                 [Write_sock (sock st) \<lparr>can_id = ident, can_dlc = len, data = take (unat len) bs\<rparr>])
               \<noteq> int (sizeof_tCanFrame m) then EIO else 0,
          st\<lparr>trace := trace st @
                 [Write_sock (sock st) \<lparr>can_id = ident, can_dlc = len, data = take (unat len) bs\<rparr>]\<rparr>)"
  using assms by (auto simp add: CanSockSend_def emit_def Let_def)

lemma CanVport_open_sock:
  "CanVport_open m os portid uuid st = Inr (r, st') \<Longrightarrow> sock st' = sock st"
  by (auto simp add: CanVport_open_def Let_def emit_def split: prod.splits if_splits)

lemma CanVport_sock:
  assumes "CanVport m os portid uuid st = Inr (r, st')"
  shows "sock st' = sock st"
proof (cases "CanVport_lookup portid st")
  case (Some i)
  then show ?thesis using assms by (simp add: CanVport_def)
next
  case None
  show ?thesis
  proof (cases "CanVport_grow os st")
    case (Inl a)
    then show ?thesis using assms None by (simp add: CanVport_def)
  next
    case (Inr b)
    obtain u st1 where b: "b = (u, st1)" by (cases b)
    then have o: "CanVport_open m os portid uuid st1 = Inr (r, st')"
      using assms None Inr by (simp add: CanVport_def)
    have "sock st1 = sock st" using Inr b
      by (auto simp add: CanVport_grow_def Let_def emit_def split: if_splits option.splits)
    then show ?thesis using CanVport_open_sock [OF o] by simp
  qed
qed

lemma ConfigurePort_returns_0:
  assumes "ConfigurePort m os frame st = Inr (r, st')"
  shows "r = 0"
  using assms
  by (auto simp add: ConfigurePort_def Let_def split: sum.splits prod.splits)

lemma ConfigurePort_after_CanVport:
  assumes "CAN_UUID_SIZE \<le> length (data frame)"
    and "CanVport m os (PnGetNumber_ret os (trace st @ [Call_PnGetNumber (data frame)]))
           (take CAN_UUID_SIZE (data frame)) (emit (Call_PnGetNumber (data frame)) st)
         = Inr (r1, st2)"
  shows "ConfigurePort m os frame st =
     Inr (0, st2\<lparr>trace := trace st2 @
            [Write_sock (sock st)
               (SET_frame m (PnGetNumber_ret os (trace st @ [Call_PnGetNumber (data frame)])) frame)]\<rparr>)"
proof -
  define pid where "pid = PnGetNumber_ret os (trace st @ [Call_PnGetNumber (data frame)])"
  define buf where "buf = le_bytes 2 (ucast (2 * pid + PKT_ID_CTL_FILTER m) :: 16 word)
               @ take CAN_UUID_SIZE (data frame)"
  have len: "length buf = 8"
    using assms(1) by (simp add: buf_def le_bytes_def CAN_UUID_SIZE_def)
  have s: "sock st2 = sock st"
    using CanVport_sock [OF assms(2)] by (simp add: emit_def)
  have tk: "take (unat (8 :: byte)) buf = buf" using len by simp
  have "CanSockSend m os (PKT_ID_SET m) 8 (Some buf) st2 =
     Inr (if write_ret os (trace st2 @
                 [Write_sock (sock st2)
                    \<lparr>can_id = PKT_ID_SET m, can_dlc = 8, data = take (unat (8 :: byte)) buf\<rparr>])
               \<noteq> int (sizeof_tCanFrame m) then EIO else 0,
          st2\<lparr>trace := trace st2 @
                 [Write_sock (sock st2)
                    \<lparr>can_id = PKT_ID_SET m, can_dlc = 8, data = take (unat (8 :: byte)) buf\<rparr>]\<rparr>)"
  proof (rule CanSockSend_covered)
    show "(8 :: byte) \<le> 8" by simp
    show "unat (8 :: byte) \<le> length buf" unfolding len by simp
  qed
  then have send: "CanSockSend m os (PKT_ID_SET m) 8 (Some buf) st2 =
     Inr (if write_ret os (trace st2 @
                 [Write_sock (sock st) \<lparr>can_id = PKT_ID_SET m, can_dlc = 8, data = buf\<rparr>])
               \<noteq> int (sizeof_tCanFrame m) then EIO else 0,
          st2\<lparr>trace := trace st2 @
                 [Write_sock (sock st) \<lparr>can_id = PKT_ID_SET m, can_dlc = 8, data = buf\<rparr>]\<rparr>)"
    unfolding tk s .
  have sz: "(of_nat (2 + CAN_UUID_SIZE) :: byte) = 8" by (simp add: CAN_UUID_SIZE_def)
  have v: "CanVport m os pid (take CAN_UUID_SIZE (data frame))
             (emit (Call_PnGetNumber (data frame)) st) = Inr (r1, st2)"
    using assms(2) by (simp add: pid_def)
  have tr: "trace (emit (Call_PnGetNumber (data frame)) st)
              = trace st @ [Call_PnGetNumber (data frame)]"
    by (simp add: emit_def)
  have "ConfigurePort m os frame st =
     Inr (0, st2\<lparr>trace := trace st2 @
             [Write_sock (sock st) \<lparr>can_id = PKT_ID_SET m, can_dlc = 8, data = buf\<rparr>]\<rparr>)"
    unfolding ConfigurePort_def Let_def tr sz pid_def [symmetric] buf_def [symmetric] v
    by (simp add: send)
  then show ?thesis
    by (simp add: SET_frame_def buf_def pid_def)
qed

lemma ConfigurePort_stops:
  assumes "CAN_UUID_SIZE \<le> length (data frame)"
    and "ConfigurePort m os frame st = Inl (e, s)"
  shows "e = Exited 1 \<and> ports_portptr st = ports_portsize st \<and>
         added st s = [Call_PnGetNumber (data frame), Realloc_p (ports_portsize st * 2),
                       Realloc_VportFd (ports_portsize st * 2), Exit 1]"
proof -
  let ?pid = "PnGetNumber_ret os (trace st @ [Call_PnGetNumber (data frame)])"
  let ?st1 = "emit (Call_PnGetNumber (data frame)) st"
  show ?thesis
  proof (cases "CanVport m os ?pid (take CAN_UUID_SIZE (data frame)) ?st1")
    case (Inl a)
    then have "a = (e, s)" using assms(2) by (simp add: ConfigurePort_def Let_def emit_def)
    then have "CanVport m os ?pid (take CAN_UUID_SIZE (data frame)) ?st1 = Inl (e, s)"
      using Inl by simp
    from CanVport_stops [OF this] show ?thesis
      by (simp add: emit_def added_def)
  next
    case (Inr b)
    obtain r1 st2 where "b = (r1, st2)" by (cases b)
    then show ?thesis
      using ConfigurePort_after_CanVport [OF assms(1), of m os st r1 st2] Inr assms(2) by simp
  qed
qed

lemma CanRx_sock_no_break:
  assumes "CanRx_sock m os st = Inr (b, st')"
  shows "\<not> b"
  using assms
  by (auto simp add: CanRx_sock_def Let_def split: prod.splits if_splits sum.splits
      dest: ConfigurePort_returns_0)

subsection \<open>\<^verbatim>\<open>CanRxThread\<close>: the reads of one iteration\<close>

text \<open>
  Each part of the iteration extends the trace; the lemmas below say which reads it adds.
  Nothing but the three \<^verbatim>\<open>read\<close> calls of the loop is a read.
\<close>

lemma reads_added_refl: "reads_added st st []"
  by (simp add: reads_added_def)

lemma reads_added_trans:
  "reads_added a b r1 \<Longrightarrow> reads_added b c r2 \<Longrightarrow> reads_added a c (r1 @ r2)"
  by (auto simp add: reads_added_def)

lemma reads_added_emit:
  "reads_added st (emit e st) (if is_read e then [e] else [])"
  by (simp add: reads_added_def emit_def)

lemma reads_added_same_trace:
  "trace st' = trace st \<Longrightarrow> reads_added st st' []"
  by (simp add: reads_added_def)

lemma reads_added_added:
  "reads_added st st' rs \<Longrightarrow> filter is_read (added st st') = rs"
  by (auto simp add: reads_added_def added_def)

lemma CanSockSend_reads:
  assumes "CanSockSend m os ident len buf st = Inr (r, st')"
  shows "reads_added st st' [] \<and> ports_VportFd st' = ports_VportFd st \<and>
         Inotify st' = Inotify st \<and> ports_portptr st' = ports_portptr st \<and>
         ports_p st' = ports_p st"
  using assms
  by (auto simp add: CanSockSend_def emit_def Let_def reads_added_def split: if_splits)

lemma CanVport_grow_reads:
  assumes "CanVport_grow os st = Inr (u, st')"
  shows "reads_added st st' [] \<and> Inotify st' = Inotify st"
  using assms
  by (auto simp add: CanVport_grow_def emit_def Let_def reads_added_def
      split: if_splits option.splits)

lemma CanVport_open_reads:
  assumes "CanVport_open m os portid uuid st = Inr (r, st')"
  shows "reads_added st st' [] \<and> Inotify st' = Inotify st"
  using assms
  by (auto simp add: CanVport_open_def emit_def Let_def reads_added_def
      split: if_splits prod.splits)

lemma CanVport_reads:
  assumes "CanVport m os portid uuid st = Inr (r, st')"
  shows "reads_added st st' [] \<and> Inotify st' = Inotify st"
proof (cases "CanVport_lookup portid st")
  case (Some i)
  then show ?thesis using assms by (simp add: CanVport_def reads_added_refl)
next
  case None
  show ?thesis
  proof (cases "CanVport_grow os st")
    case (Inl a)
    then show ?thesis using assms None by (simp add: CanVport_def)
  next
    case (Inr b)
    obtain u st1 where b: "b = (u, st1)" by (cases b)
    then have o: "CanVport_open m os portid uuid st1 = Inr (r, st')"
      using assms None Inr by (simp add: CanVport_def)
    have g: "CanVport_grow os st = Inr (u, st1)" using Inr b by simp
    show ?thesis
      using reads_added_trans [of st st1 "[]" st' "[]"]
        CanVport_grow_reads [OF g] CanVport_open_reads [OF o] by simp
  qed
qed

lemma ConfigurePort_reads:
  assumes "ConfigurePort m os frame st = Inr (r, st')"
  shows "reads_added st st' [] \<and> Inotify st' = Inotify st"
proof -
  let ?st1 = "emit (Call_PnGetNumber (data frame)) st"
  let ?pid = "PnGetNumber_ret os (trace ?st1)"
  obtain r1 st2 where v: "CanVport m os ?pid (take CAN_UUID_SIZE (data frame)) ?st1 = Inr (r1, st2)"
    using assms by (auto simp add: ConfigurePort_def Let_def split: sum.splits)
  then obtain r2 where s: "CanSockSend m os (PKT_ID_SET m) (of_nat (2 + CAN_UUID_SIZE))
      (Some (le_bytes 2 (ucast (2 * ?pid + PKT_ID_CTL_FILTER m) :: 16 word)
               @ take CAN_UUID_SIZE (data frame))) st2 = Inr (r2, st')"
    using assms by (auto simp add: ConfigurePort_def Let_def split: sum.splits)
  have 1: "reads_added st ?st1 []" using reads_added_emit [of st "Call_PnGetNumber (data frame)"] by simp
  have 2: "reads_added ?st1 st2 []" "Inotify st2 = Inotify ?st1" using CanVport_reads [OF v] by auto
  have 3: "reads_added st2 st' []" "Inotify st' = Inotify st2" using CanSockSend_reads [OF s] by auto
  have "reads_added st st' ([] @ [] @ [])"
    using reads_added_trans [OF 1 reads_added_trans [OF 2(1) 3(1)]] by simp
  then show ?thesis using 2(2) 3(2) by (simp add: emit_def)
qed

lemma CanRx_frame_reads:
  assumes "CanRx_frame m os frame st = Inr (u, st')"
  shows "reads_added st st' [] \<and> Inotify st' = Inotify st"
proof (cases "CanRx_lookup frame st")
  case None
  then show ?thesis
    using assms CanRx_frame_None [OF None, of m os] by (auto simp add: reads_added_def)
next
  case (Some i)
  then show ?thesis
    using assms
    by (auto simp add: CanRx_frame_def Let_def emit_def reads_added_def split: if_splits)
qed

lemma CanRx_sock_reads:
  assumes "CanRx_sock m os st = Inr (b, st')"
  shows "reads_added st st' [Read_sock (fd (ports_VportFd st ! 0))] \<and> Inotify st' = Inotify st"
proof -
  let ?e = "Read_sock (fd (ports_VportFd st ! 0))"
  let ?st1 = "emit ?e st"
  have 1: "reads_added st ?st1 [?e]" using reads_added_emit [of st ?e] by simp
  have "reads_added ?st1 st' [] \<and> Inotify st' = Inotify ?st1"
    using assms
    by (auto simp add: CanRx_sock_def Let_def reads_added_refl
        split: prod.splits if_splits sum.splits
        dest: ConfigurePort_reads CanRx_frame_reads)
  then show ?thesis using reads_added_trans [OF 1, of st' "[]"] by (simp add: emit_def)
qed

lemma fold_active_frame:
  "trace (fold (\<lambda>b s. if b = c then s\<lparr>ports_p := F s\<rparr> else s) bs st) = trace st \<and>
   ports_VportFd (fold (\<lambda>b s. if b = c then s\<lparr>ports_p := F s\<rparr> else s) bs st) = ports_VportFd st \<and>
   Inotify (fold (\<lambda>b s. if b = c then s\<lparr>ports_p := F s\<rparr> else s) bs st) = Inotify st \<and>
   ports_portptr (fold (\<lambda>b s. if b = c then s\<lparr>ports_p := F s\<rparr> else s) bs st) = ports_portptr st"
  by (induction bs arbitrary: st) auto

lemma CanRx_pty_reads:
  assumes "CanRx_pty m os i st = Inr (u, st')"
  shows "reads_added st st'
           (if revents (ports_VportFd st ! i) \<noteq> 0 then [Read_pty (fd (ports_VportFd st ! i))] else [])
         \<and> ports_VportFd st' = ports_VportFd st \<and> Inotify st' = Inotify st"
proof (cases "revents (ports_VportFd st ! i) \<noteq> 0")
  case False
  then show ?thesis using assms by (simp add: CanRx_pty_def reads_added_refl)
next
  case True
  let ?e = "Read_pty (fd (ports_VportFd st ! i))"
  let ?st1 = "emit ?e st"
  obtain rl bytes where r: "read_pty_ret os (trace ?st1) = (rl, bytes)"
    by (cases "read_pty_ret os (trace ?st1)")
  have 1: "reads_added st ?st1 [?e]" using reads_added_emit [of st ?e] by simp
  have "reads_added ?st1 st' [] \<and> ports_VportFd st' = ports_VportFd ?st1 \<and> Inotify st' = Inotify ?st1"
  proof (cases "0 < rl")
    case False
    then show ?thesis using assms True r by (simp add: CanRx_pty_def Let_def reads_added_refl)
  next
    case pos: True
    let ?st2 = "fold (\<lambda>b s. if b = 0x7E
                         then s\<lparr>ports_p := (ports_p s)[i := (ports_p s ! i)\<lparr>active := 1\<rparr>]\<rparr>
                         else s)
                  (take (nat rl) (map bytes [0..<CAN_DATA_SIZE])) ?st1"
    have f: "trace ?st2 = trace ?st1" "ports_VportFd ?st2 = ports_VportFd ?st1"
      "Inotify ?st2 = Inotify ?st1"
      using fold_active_frame [of "0x7E" "\<lambda>s. (ports_p s)[i := (ports_p s ! i)\<lparr>active := 1\<rparr>]" _ ?st1]
      by auto
    obtain r2 where s: "CanSockSend m os (canid (ports_p ?st2 ! i)) (of_int rl)
        (Some (map bytes [0..<CAN_DATA_SIZE])) ?st2 = Inr (r2, st')"
      using assms True r pos
      by (auto simp add: CanRx_pty_def Let_def split: if_splits sum.splits)
    have "reads_added ?st1 ?st2 []" using f(1) by (rule reads_added_same_trace)
    then show ?thesis
      using reads_added_trans [of ?st1 ?st2 "[]" st' "[]"] CanSockSend_reads [OF s] f by simp
  qed
  then show ?thesis using reads_added_trans [OF 1, of st' "[]"] True by (simp add: emit_def)
qed

lemma CanRx_ptys_reads:
  assumes "CanRx_ptys m os js st = Inr (u, st')"
  shows "reads_added st st'
           (map (\<lambda>i. Read_pty (fd (ports_VportFd st ! i)))
              (filter (\<lambda>i. revents (ports_VportFd st ! i) \<noteq> 0) js))
         \<and> ports_VportFd st' = ports_VportFd st \<and> Inotify st' = Inotify st"
  using assms
proof (induction js arbitrary: st)
  case Nil
  then show ?case by (simp add: reads_added_refl)
next
  case (Cons i js)
  obtain u1 st1 where 1: "CanRx_pty m os i st = Inr (u1, st1)"
    and 2: "CanRx_ptys m os js st1 = Inr (u, st')"
    using Cons.prems by (auto split: sum.splits)
  note a = CanRx_pty_reads [OF 1]
  note b = Cons.IH [OF 2]
  have "reads_added st st'
      ((if revents (ports_VportFd st ! i) \<noteq> 0 then [Read_pty (fd (ports_VportFd st ! i))] else [])
       @ map (\<lambda>i. Read_pty (fd (ports_VportFd st1 ! i)))
              (filter (\<lambda>i. revents (ports_VportFd st1 ! i) \<noteq> 0) js))"
    using reads_added_trans a b by blast
  then show ?case using a b by (cases "revents (ports_VportFd st ! i) = 0") simp_all
qed

lemma CanRx_event_reads:
  assumes "CanRx_event m os ev st = Inr (u, st')"
  shows "reads_added st st' [] \<and> Inotify st' = Inotify st"
proof (cases "find (\<lambda>i. watch (ports_p st ! i) = wd ev) [1..<ports_portptr st]")
  case None
  then show ?thesis using assms by (simp add: CanRx_event_def reads_added_refl)
next
  case (Some i)
  show ?thesis
  proof (cases "mask ev AND IN_OPEN \<noteq> 0")
    case True
    let ?st1 = "st\<lparr>ports_p := (ports_p st)[i := (ports_p st ! i)\<lparr>active := 1\<rparr>]\<rparr>"
    obtain r where s: "CanSockSend m os (PKT_ID_UUID m) 2
        (Some (le_bytes 4 (canid (ports_p ?st1 ! i)))) ?st1 = Inr (r, st')"
      using assms Some True by (auto simp add: CanRx_event_def Let_def split: sum.splits)
    have "reads_added st ?st1 []" by (rule reads_added_same_trace) simp
    then show ?thesis
      using reads_added_trans [of st ?st1 "[]" st' "[]"] CanSockSend_reads [OF s] by simp
  next
    case False
    then have "trace st' = trace st \<and> Inotify st' = Inotify st"
      using assms Some by (auto simp add: CanRx_event_def split: if_splits)
    then show ?thesis by (simp add: reads_added_same_trace)
  qed
qed

lemma CanRx_events_reads:
  assumes "CanRx_events m os evs st = Inr (u, st')"
  shows "reads_added st st' [] \<and> Inotify st' = Inotify st"
  using assms
proof (induction evs arbitrary: st)
  case Nil
  then show ?case by (simp add: reads_added_refl)
next
  case (Cons ev evs)
  obtain u1 st1 where 1: "CanRx_event m os ev st = Inr (u1, st1)"
    and 2: "CanRx_events m os evs st1 = Inr (u, st')"
    using Cons.prems by (auto split: sum.splits)
  show ?case
    using reads_added_trans [of st st1 "[]" st' "[]"] CanRx_event_reads [OF 1] Cons.IH [OF 2]
    by simp
qed

lemma CanRx_inotify_reads:
  assumes "CanRx_inotify m os st = Inr (u, st')"
  shows "reads_added st st' [Read_inotify (Inotify st)]"
proof -
  let ?e = "Read_inotify (Inotify st)"
  have 1: "reads_added st (emit ?e st) [?e]" using reads_added_emit [of st ?e] by simp
  have 2: "reads_added (emit ?e st) st' []"
    using assms CanRx_events_reads [of m os _ "emit ?e st" u st']
    by (simp add: CanRx_inotify_def Let_def)
  show ?thesis using reads_added_trans [OF 1 2] by simp
qed

lemma CanRx_poll_cells:
  assumes "i < ports_portptr st" "ports_portptr st \<le> length (ports_VportFd st)"
  shows "fd (ports_VportFd (snd (CanRx_poll os st)) ! i) = fd (ports_VportFd st ! i) \<and>
         revents (ports_VportFd (snd (CanRx_poll os st)) ! i)
           = snd (poll_ret os (trace st @ [Poll (ports_portptr st)])) i"
  using assms
  by (simp add: CanRx_poll_def Let_def emit_def nth_append split: prod.splits)

lemma CanRx_poll_frame:
  "reads_added st (snd (CanRx_poll os st)) [] \<and>
   Inotify (snd (CanRx_poll os st)) = Inotify st \<and>
   ports_portptr (snd (CanRx_poll os st)) = ports_portptr st \<and>
   fst (CanRx_poll os st) = fst (poll_ret os (trace st @ [Poll (ports_portptr st)]))"
  by (simp add: CanRx_poll_def Let_def emit_def reads_added_def split: prod.splits)

subsection \<open>\<^verbatim>\<open>CanVport\<close>: one slot per port number\<close>

text \<open>
  A port number that is in the table is found (\<open>CanVport_existing\<close>), and a call that
  returns keeps the port numbers of the table distinct, provided the port number fits
  the 16 bits of the field \<^verbatim>\<open>port\<close>.
\<close>

lemma CanVport_grow_table:
  assumes "CanVport_grow os st = Inr (u, st1)" "table_ok st"
  shows "ports_portptr st1 = ports_portptr st \<and> ports_portptr st1 < length (ports_p st1) \<and>
         (\<forall>i<ports_portptr st. ports_p st1 ! i = ports_p st ! i)"
  using assms
  by (auto simp add: CanVport_grow_def Let_def emit_def table_ok_def nth_append
      split: if_splits option.splits)

lemma CanVport_open_table:
  assumes "CanVport_open m os portid uuid st = Inr (r, st')"
    and "ports_portptr st < length (ports_p st)"
  shows "(ports_portptr st' = ports_portptr st \<or>
          ports_portptr st' = ports_portptr st + 1 \<and>
          port (ports_p st' ! ports_portptr st) = ucast portid) \<and>
         (\<forall>i<ports_portptr st. ports_p st' ! i = ports_p st ! i)"
  using assms
  by (auto simp add: CanVport_open_def Let_def emit_def split: prod.splits if_splits)

lemma CanVport_keeps_distinct:
  assumes r: "CanVport m os portid uuid st = Inr (r, st')"
    and ok: "table_ok st" and d: "ports_distinct st"
    and fit: "ucast (ucast portid :: 16 word) = portid"
  shows "ports_distinct st'"
proof (cases "CanVport_lookup portid st")
  case (Some i)
  then show ?thesis using r d by (simp add: CanVport_def)
next
  case None
  then have new: "\<forall>j. 1 \<le> j \<and> j < ports_portptr st \<longrightarrow> ucast (port (ports_p st ! j)) \<noteq> portid"
    by (simp add: CanVport_lookup_def find_upt_None)
  obtain u st1 where g: "CanVport_grow os st = Inr (u, st1)"
    and o: "CanVport_open m os portid uuid st1 = Inr (r, st')"
    using r None by (auto simp add: CanVport_def split: sum.splits)
  note gt = CanVport_grow_table [OF g ok]
  then have lt: "ports_portptr st1 < length (ports_p st1)" by simp
  note ot = CanVport_open_table [OF o lt]
  let ?k = "ports_portptr st"
  have same: "ports_p st' ! i = ports_p st ! i" if "i < ?k" for i
    using that gt ot by simp
  have m: "map (\<lambda>i. port (ports_p st' ! i)) [1..<?k] = map (\<lambda>i. port (ports_p st ! i)) [1..<?k]"
    by (rule map_cong) (simp_all add: same)
  from ot gt consider "ports_portptr st' = ?k"
    | "ports_portptr st' = ?k + 1" "port (ports_p st' ! ?k) = ucast portid"
    by auto
  then show ?thesis
  proof cases
    case 1
    show ?thesis
      unfolding ports_distinct_def 1 m using d unfolding ports_distinct_def .
  next
    case 2
    have pos: "1 \<le> ?k" using ok by (simp add: table_ok_def)
    have "ucast portid \<notin> set (map (\<lambda>i. port (ports_p st ! i)) [1..<?k])"
    proof
      assume "ucast portid \<in> set (map (\<lambda>i. port (ports_p st ! i)) [1..<?k])"
      then obtain j where j: "1 \<le> j" "j < ?k" "port (ports_p st ! j) = ucast portid" by auto
      then have "ucast (port (ports_p st ! j)) = portid" using fit by simp
      with new j show False by blast
    qed
    moreover have "[1..<?k + 1] = [1..<?k] @ [?k]" using pos by simp
    moreover have "distinct (map (\<lambda>i. port (ports_p st ! i)) [1..<?k])"
      using d unfolding ports_distinct_def .
    ultimately show ?thesis
      unfolding ports_distinct_def 2(1) by (simp only: map_append m distinct_append) (simp add: 2(2))
  qed
qed

subsection \<open>\<^verbatim>\<open>CanPing\<close>: the table after a reap\<close>

text \<open>
  \<^verbatim>\<open>CanPing\<close> always returns. Reaping deletes the slot when at most one slot follows
  it; with two or more followers the table ends with the same slot twice.
\<close>

lemma CanPing_returns: "\<exists>st'. CanPing m os st = Inr ((), st')"
  by (simp add: CanPing_def CanSockSend_def Let_def)

lemma take_update_next:
  assumes "c + 1 < length xs"
  shows "take (c + 1) (xs[c := xs ! (c + 1)]) = take c xs @ [xs ! (c + 1)]"
proof -
  have "c < length (xs[c := xs ! (c + 1)])" using assms by simp
  then have "take (Suc c) (xs[c := xs ! (c + 1)])
      = take c (xs[c := xs ! (c + 1)]) @ [xs[c := xs ! (c + 1)] ! c]"
    by (rule take_Suc_conv_app_nth)
  moreover have "xs[c := xs ! (c + 1)] ! c = xs ! (c + 1)" using assms by simp
  moreover have "take c (xs[c := xs ! (c + 1)]) = take c xs" by simp
  ultimately show ?thesis by simp
qed

lemma delete_before_last:
  assumes "c + 1 < length xs"
  shows "take c (take (c + 2) xs) @ drop (c + 1) (take (c + 2) xs) = take c xs @ [xs ! (c + 1)]"
proof -
  have "drop (c + 1) (take (c + 2) xs) = take 1 (drop (c + 1) xs)"
    by (simp add: drop_take)
  also have "drop (c + 1) xs = xs ! (c + 1) # drop (Suc (c + 1)) xs"
    using assms by (rule Cons_nth_drop_Suc [symmetric])
  finally have "drop (c + 1) (take (c + 2) xs) = [xs ! (c + 1)]" by simp
  moreover have "take c (take (c + 2) xs) = take c xs" by (simp add: min_def)
  ultimately show ?thesis by simp
qed

lemma CanPing_reap_deletes:
  assumes "pingptr st \<noteq> 0" "pingptr st < ports_portptr st"
    and "ports_portptr st \<le> pingptr st + 2" "ports_portptr st \<le> length (ports_p st)"
    and "pingcount (ports_p st ! pingptr st) = 0"
  shows "map_sum fst (table \<circ> snd) (CanPing m os st)
           = Inr (take (pingptr st) (table st) @ drop (pingptr st + 1) (table st))"
proof -
  let ?c = "pingptr st"
  let ?n = "ports_portptr st"
  let ?p = "ports_p st"
  consider "?n = ?c + 1" | "?n = ?c + 2" using assms(2,3) by linarith
  then show ?thesis
  proof cases
    case 1
    have "take ?c (take (?c + 1) ?p) = take ?c ?p" by (simp add: min_def)
    then show ?thesis
      using 1 by (simp add: CanPing_reap [OF assms(1,2,5)] table_def)
  next
    case 2
    then have lt: "?c + 1 < length ?p" using assms(4) by simp
    show ?thesis
      unfolding CanPing_reap [OF assms(1,2,5)] table_def 2
      using take_update_next [OF lt] delete_before_last [OF lt] by simp
  qed
qed

lemma CanPing_reap_duplicates:
  assumes "pingptr st \<noteq> 0" "pingptr st + 2 < ports_portptr st"
    and "ports_portptr st \<le> length (ports_p st)"
    and "pingcount (ports_p st ! pingptr st) = 0"
  shows "\<not> ports_distinct (state_of (CanPing m os st))"
proof -
  let ?c = "pingptr st"
  let ?p' = "(ports_p st)[?c := ports_p st ! (?c + 1)]"
  have lt: "?c < ports_portptr st" using assms(2) by simp
  have same: "port (?p' ! ?c) = port (?p' ! (?c + 1))" using assms(2,3) by simp
  have "distinct (map (\<lambda>i. port (?p' ! i)) [1..<ports_portptr st - 1]) \<Longrightarrow> False"
  proof -
    assume "distinct (map (\<lambda>i. port (?p' ! i)) [1..<ports_portptr st - 1])"
    then have "inj_on (\<lambda>i. port (?p' ! i)) (set [1..<ports_portptr st - 1])"
      by (simp add: distinct_map)
    moreover have "?c \<in> set [1..<ports_portptr st - 1]"
      "?c + 1 \<in> set [1..<ports_portptr st - 1]"
      using assms(1,2) by auto
    ultimately have "?c = ?c + 1" using same by (meson inj_onD)
    then show False by simp
  qed
  then show ?thesis
    using assms(2)
    by (auto simp add: CanPing_reap [OF assms(1) lt assms(4)] state_of_def ports_distinct_def)
qed

subsection \<open>\<^verbatim>\<open>CanRxThread\<close>: which frames take which branch\<close>

lemma CanRx_sock_data_frame:
  assumes "read_sock_ret os (trace st @ [Read_sock (fd (ports_VportFd st ! 0))])
             = (n, ident, dlc, bytes)"
    and "0 \<le> n" "ident \<noteq> PKT_ID_UUID_RESP m"
  shows "CanRx_sock m os st =
     (case CanRx_frame m os \<lparr>can_id = ident, can_dlc = dlc, data = map bytes [0..<CAN_DATA_SIZE]\<rparr>
             (emit (Read_sock (fd (ports_VportFd st ! 0))) st) of
        Inl e \<Rightarrow> Inl e
      | Inr (u, s) \<Rightarrow> Inr (False, s))"
  using assms by (simp add: CanRx_sock_def Let_def emit_def)

subsection \<open>An invariant: the table stays within its arrays\<close>

text \<open>
  Every step keeps \<open>table_ok\<close>, so it holds in every reachable state: the indices the
  code uses without a check lie within the arrays.
\<close>

lemma table_ok_trace [simp]: "table_ok (st\<lparr>trace := tr\<rparr>) = table_ok st"
  by (simp add: table_ok_def)

lemma table_ok_emit [simp]: "table_ok (emit e st) = table_ok st"
  by (simp add: emit_def)

lemma table_ok_init: "table_ok (init_state s ino gp)"
  by (simp add: table_ok_def init_state_def)

lemma CanSockSend_only_trace:
  assumes "CanSockSend m os ident len buf st = Inr (r, st')"
  shows "st' = st\<lparr>trace := trace st'\<rparr>"
  using assms
  by (auto simp add: CanSockSend_def emit_def Let_def split: if_splits)

lemma CanSockSend_table_ok:
  assumes "CanSockSend m os ident len buf st = Inr (r, st')" "table_ok st"
  shows "table_ok st'"
proof -
  have "table_ok (st\<lparr>trace := trace st'\<rparr>)" using assms(2) by simp
  then show ?thesis using CanSockSend_only_trace [OF assms(1)] by simp
qed

lemma CanPing_table_ok:
  assumes "CanPing m os st = Inr (u, st')" "table_ok st"
  shows "table_ok st'"
proof (cases "pingptr st = 0")
  case True
  then obtain r st1 where s: "CanSockSend m os (PKT_ID_UUID m) 0 None st = Inr (r, st1)"
    and e: "st' = st1\<lparr>pingptr := pingptr st1 + 1\<rparr>"
    using assms(1) by (auto simp add: CanPing_def split: sum.splits)
  show ?thesis using CanSockSend_table_ok [OF s assms(2)] e by (simp add: table_ok_def)
next
  case nz: False
  show ?thesis
  proof (cases "ports_portptr st \<le> pingptr st")
    case True
    then show ?thesis using assms nz by (auto simp add: CanPing_def table_ok_def)
  next
    case False
    then have lt: "pingptr st < ports_portptr st" by simp
    show ?thesis
    proof (cases "pingcount (ports_p st ! pingptr st) = 0")
      case True
      show ?thesis
        using assms nz lt unfolding CanPing_reap [OF nz lt True]
        by (auto simp add: table_ok_def)
    next
      case False
      have len: "pingptr st < length (ports_p st)" using lt assms(2) by (simp add: table_ok_def)
      show ?thesis
        using assms unfolding CanPing_dec [OF nz lt len False]
        by (auto simp add: table_ok_def)
    qed
  qed
qed

lemma CanVport_grow_table_ok:
  assumes "CanVport_grow os st = Inr (u, st')" "table_ok st"
  shows "table_ok st' \<and> ports_portptr st' < ports_portsize st'"
  using assms
  by (auto simp add: CanVport_grow_def Let_def emit_def table_ok_def
      split: if_splits option.splits)

lemma CanVport_open_table_ok:
  assumes "CanVport_open m os portid uuid st = Inr (r, st')" "table_ok st"
    and "ports_portptr st < ports_portsize st"
  shows "table_ok st'"
  using assms
  by (auto simp add: CanVport_open_def Let_def emit_def table_ok_def
      split: prod.splits if_splits)

lemma CanVport_table_ok:
  assumes "CanVport m os portid uuid st = Inr (r, st')" "table_ok st"
  shows "table_ok st'"
proof (cases "CanVport_lookup portid st")
  case (Some i)
  then show ?thesis using assms by (simp add: CanVport_def)
next
  case None
  obtain u st1 where g: "CanVport_grow os st = Inr (u, st1)"
    and o: "CanVport_open m os portid uuid st1 = Inr (r, st')"
    using assms(1) None by (auto simp add: CanVport_def split: sum.splits)
  show ?thesis
    using CanVport_grow_table_ok [OF g assms(2)] CanVport_open_table_ok [OF o] by simp
qed

lemma ConfigurePort_table_ok:
  assumes "ConfigurePort m os frame st = Inr (r, st')" "table_ok st"
  shows "table_ok st'"
proof -
  let ?st1 = "emit (Call_PnGetNumber (data frame)) st"
  let ?pid = "PnGetNumber_ret os (trace ?st1)"
  obtain r1 st2 where v: "CanVport m os ?pid (take CAN_UUID_SIZE (data frame)) ?st1 = Inr (r1, st2)"
    using assms by (auto simp add: ConfigurePort_def Let_def split: sum.splits)
  then obtain r2 where s: "CanSockSend m os (PKT_ID_SET m) (of_nat (2 + CAN_UUID_SIZE))
      (Some (le_bytes 2 (ucast (2 * ?pid + PKT_ID_CTL_FILTER m) :: 16 word)
               @ take CAN_UUID_SIZE (data frame))) st2 = Inr (r2, st')"
    using assms by (auto simp add: ConfigurePort_def Let_def split: sum.splits)
  have "table_ok st2" using CanVport_table_ok [OF v] assms(2) by simp
  then show ?thesis using CanSockSend_table_ok [OF s] by simp
qed

lemma CanRx_frame_table_ok:
  assumes "CanRx_frame m os frame st = Inr (u, st')" "table_ok st"
  shows "table_ok st'"
proof (cases "CanRx_lookup frame st")
  case None
  then show ?thesis
    using assms CanRx_frame_None [OF None, of m os] by auto
next
  case (Some i)
  then show ?thesis
    using assms
    by (auto simp add: CanRx_frame_def Let_def emit_def table_ok_def split: if_splits)
qed

lemma CanRx_sock_table_ok:
  assumes "CanRx_sock m os st = Inr (b, st')" "table_ok st"
  shows "table_ok st'"
  using assms
  by (auto simp add: CanRx_sock_def Let_def
      split: prod.splits if_splits sum.splits
      dest: ConfigurePort_table_ok CanRx_frame_table_ok)

lemma fold_active_table_ok:
  "table_ok (fold (\<lambda>b s. if b = c
                      then s\<lparr>ports_p := (ports_p s)[i := (ports_p s ! i)\<lparr>active := 1\<rparr>]\<rparr>
                      else s) bs st) = table_ok st"
  by (induction bs arbitrary: st) (auto simp add: table_ok_def)

lemma CanRx_pty_table_ok:
  assumes "CanRx_pty m os i st = Inr (u, st')" "table_ok st"
  shows "table_ok st'"
  using assms
  by (auto simp add: CanRx_pty_def Let_def fold_active_table_ok
      split: prod.splits if_splits sum.splits dest!: CanSockSend_table_ok)

lemma CanRx_ptys_table_ok:
  assumes "CanRx_ptys m os js st = Inr (u, st')" "table_ok st"
  shows "table_ok st'"
  using assms
proof (induction js arbitrary: st)
  case Nil
  then show ?case by simp
next
  case (Cons i js)
  obtain u1 st1 where 1: "CanRx_pty m os i st = Inr (u1, st1)"
    and 2: "CanRx_ptys m os js st1 = Inr (u, st')"
    using Cons.prems by (auto split: sum.splits)
  show ?case using Cons.IH [OF 2] CanRx_pty_table_ok [OF 1 Cons.prems(2)] by simp
qed

lemma CanRx_event_table_ok:
  assumes "CanRx_event m os ev st = Inr (u, st')" "table_ok st"
  shows "table_ok st'"
proof (cases "find (\<lambda>i. watch (ports_p st ! i) = wd ev) [1..<ports_portptr st]")
  case None
  then show ?thesis using assms by (simp add: CanRx_event_def)
next
  case (Some i)
  show ?thesis
  proof (cases "mask ev AND IN_OPEN \<noteq> 0")
    case True
    let ?st1 = "st\<lparr>ports_p := (ports_p st)[i := (ports_p st ! i)\<lparr>active := 1\<rparr>]\<rparr>"
    obtain r where s: "CanSockSend m os (PKT_ID_UUID m) 2
        (Some (le_bytes 4 (canid (ports_p ?st1 ! i)))) ?st1 = Inr (r, st')"
      using assms Some True by (auto simp add: CanRx_event_def Let_def split: sum.splits)
    have "table_ok ?st1" using assms(2) by (simp add: table_ok_def)
    then show ?thesis using CanSockSend_table_ok [OF s] by simp
  next
    case False
    then show ?thesis
      using assms Some by (auto simp add: CanRx_event_def table_ok_def split: if_splits)
  qed
qed

lemma CanRx_events_table_ok:
  assumes "CanRx_events m os evs st = Inr (u, st')" "table_ok st"
  shows "table_ok st'"
  using assms
proof (induction evs arbitrary: st)
  case Nil
  then show ?case by simp
next
  case (Cons ev evs)
  obtain u1 st1 where 1: "CanRx_event m os ev st = Inr (u1, st1)"
    and 2: "CanRx_events m os evs st1 = Inr (u, st')"
    using Cons.prems by (auto split: sum.splits)
  show ?case using Cons.IH [OF 2] CanRx_event_table_ok [OF 1 Cons.prems(2)] by simp
qed

lemma CanRx_poll_table_ok:
  assumes "table_ok st"
  shows "table_ok (snd (CanRx_poll os st))"
  using assms
  by (auto simp add: CanRx_poll_def Let_def emit_def table_ok_def split: prod.splits)

lemma CanRxThread_iter_table_ok:
  assumes "CanRxThread_iter m os st = Inr (b, st')" "table_ok st"
  shows "table_ok st'"
proof -
  obtain ret st1 where p: "CanRx_poll os st = (ret, st1)" by (cases "CanRx_poll os st")
  then have 1: "table_ok st1" using CanRx_poll_table_ok [OF assms(2), of os] by simp
  obtain brk st2 where rdy: "CanRx_ready m os ret st1 = Inr (brk, st2)"
    using assms(1) p by (auto simp add: CanRxThread_iter_def split: sum.splits)
  have 2: "table_ok st2"
    using rdy 1
    by (auto simp add: CanRx_ready_def split: if_splits sum.splits
        dest: CanRx_sock_table_ok CanRx_ptys_table_ok)
  show ?thesis
    using assms(1) p rdy 2
    by (auto simp add: CanRxThread_iter_def CanRx_inotify_def Let_def
        split: if_splits sum.splits dest: CanRx_events_table_ok)
qed

lemma reachable_table_ok: "reachable m os st \<Longrightarrow> table_ok st"
proof (induction rule: reachable.induct)
  case (start s ino gp)
  show ?case by (rule table_ok_init)
next
  case (worker st b st')
  then show ?case using CanRxThread_iter_table_ok by blast
next
  case (timer st u st')
  then show ?case using CanPing_table_ok by blast
next
  case (sender st ident len buf r st')
  then show ?case using CanSockSend_table_ok by blast
qed

lemma reachable_iters:
  assumes "reachable m os st" "CanRxThread_iters m os n st = Inr (u, st')"
  shows "reachable m os st'"
  using assms
proof (induction n arbitrary: st)
  case 0
  then show ?case by simp
next
  case (Suc n)
  show ?case
  proof (cases "threadexit st \<noteq> 0")
    case True
    then show ?thesis using Suc.prems by simp
  next
    case False
    then obtain brk st1 where i: "CanRxThread_iter m os st = Inr (brk, st1)"
      using Suc.prems(2) by (auto split: sum.splits)
    have r1: "reachable m os st1" using reachable.worker [OF Suc.prems(1) _ i] False by simp
    show ?thesis
    proof (cases brk)
      case True
      then show ?thesis using Suc.prems(2) False i r1 by simp
    next
      case nb: False
      then have "CanRxThread_iters m os n st1 = Inr (u, st')"
        using Suc.prems(2) False i by simp
      then show ?thesis using Suc.IH [OF r1] by simp
    qed
  qed
qed

lemma reachable_pings:
  assumes "reachable m os st" "CanPing_times m os n st = Inr (u, st')"
  shows "reachable m os st'"
  using assms
proof (induction n arbitrary: st)
  case 0
  then show ?case by simp
next
  case (Suc n)
  obtain u1 st1 where p: "CanPing m os st = Inr (u1, st1)"
    and r: "CanPing_times m os n st1 = Inr (u, st')"
    using Suc.prems(2) by (auto split: sum.splits)
  show ?case using Suc.IH [OF reachable.timer [OF Suc.prems(1) p] r] .
qed

subsection \<open>\<^verbatim>\<open>CanRxThread\<close>: the iteration that reads a data frame\<close>

text \<open>
  The inotify part of an iteration always completes, writes to no PTY master and leaves
  every ping credit as it is. An iteration that reads a data frame is therefore the
  dispatch of lines 213-228 between the two reads.
\<close>

lemma no_dispatch_refl: "no_dispatch st st"
  by (simp add: no_dispatch_def)

lemma no_dispatch_trans: "no_dispatch a b \<Longrightarrow> no_dispatch b c \<Longrightarrow> no_dispatch a c"
  by (auto simp add: no_dispatch_def)

lemma pingcount_update_active:
  "pingcount (xs[i := (xs ! i)\<lparr>active := v\<rparr>] ! j) = pingcount (xs ! j)"
proof (cases "i < length xs")
  case True
  then show ?thesis by (simp add: nth_list_update)
next
  case False
  then have "xs[i := (xs ! i)\<lparr>active := v\<rparr>] = xs" by (simp add: list_update_beyond)
  then show ?thesis by simp
qed

lemma CanRx_event_no_dispatch:
  "\<exists>st'. CanRx_event m os ev st = Inr ((), st') \<and> no_dispatch st st'"
proof (cases "find (\<lambda>i. watch (ports_p st ! i) = wd ev) [1..<ports_portptr st]")
  case None
  then show ?thesis by (simp add: CanRx_event_def no_dispatch_refl)
next
  case (Some i)
  show ?thesis
  proof (cases "mask ev AND IN_OPEN \<noteq> 0")
    case True
    let ?st1 = "st\<lparr>ports_p := (ports_p st)[i := (ports_p st ! i)\<lparr>active := 1\<rparr>]\<rparr>"
    let ?bs = "le_bytes 4 (canid (ports_p ?st1 ! i))"
    have "CanSockSend m os (PKT_ID_UUID m) 2 (Some ?bs) ?st1 =
      Inr (if write_ret os (trace ?st1 @
                 [Write_sock (sock ?st1) \<lparr>can_id = PKT_ID_UUID m, can_dlc = 2, data = take (unat (2 :: byte)) ?bs\<rparr>])
               \<noteq> int (sizeof_tCanFrame m) then EIO else 0,
          ?st1\<lparr>trace := trace ?st1 @
                 [Write_sock (sock ?st1) \<lparr>can_id = PKT_ID_UUID m, can_dlc = 2, data = take (unat (2 :: byte)) ?bs\<rparr>]\<rparr>)"
      by (rule CanSockSend_covered) (simp_all add: le_bytes_def)
    then show ?thesis
      using Some True
      by (simp add: CanRx_event_def Let_def no_dispatch_def pingcount_update_active)
  next
    case False
    then show ?thesis
      using Some by (simp add: CanRx_event_def no_dispatch_def pingcount_update_active)
  qed
qed

lemma CanRx_events_no_dispatch:
  "\<exists>st'. CanRx_events m os evs st = Inr ((), st') \<and> no_dispatch st st'"
proof (induction evs arbitrary: st)
  case Nil
  show ?case by (simp add: no_dispatch_refl)
next
  case (Cons ev evs)
  obtain st1 where 1: "CanRx_event m os ev st = Inr ((), st1)" "no_dispatch st st1"
    using CanRx_event_no_dispatch by blast
  obtain st2 where 2: "CanRx_events m os evs st1 = Inr ((), st2)" "no_dispatch st1 st2"
    using Cons.IH by blast
  show ?case using 1 2 no_dispatch_trans by auto
qed

lemma CanRx_inotify_no_dispatch:
  "\<exists>st'. CanRx_inotify m os st = Inr ((), st') \<and>
     (\<exists>es. trace st' = trace st @ Read_inotify (Inotify st) # es \<and> filter is_pty_write es = []) \<and>
     (\<forall>j. pingcount (ports_p st' ! j) = pingcount (ports_p st ! j))"
proof -
  let ?st1 = "emit (Read_inotify (Inotify st)) st"
  obtain st' where 1: "CanRx_events m os (read_inotify_ret os (trace ?st1)) ?st1 = Inr ((), st')"
    and 2: "no_dispatch ?st1 st'"
    using CanRx_events_no_dispatch by blast
  show ?thesis
    using 1 2 by (auto simp add: CanRx_inotify_def Let_def no_dispatch_def emit_def)
qed

lemma CanRx_poll_rest:
  "trace (snd (CanRx_poll os st)) = trace st @ [Poll (ports_portptr st)] \<and>
   ports_p (snd (CanRx_poll os st)) = ports_p st \<and>
   ports_portptr (snd (CanRx_poll os st)) = ports_portptr st \<and>
   sock (snd (CanRx_poll os st)) = sock st \<and>
   Inotify (snd (CanRx_poll os st)) = Inotify st"
  by (simp add: CanRx_poll_def Let_def emit_def split: prod.splits)

lemma CanRxThread_iter_data:
  assumes "0 < ports_portptr st" "ports_portptr st \<le> length (ports_VportFd st)"
    and "poll_ret os (trace st @ [Poll (ports_portptr st)]) = (ret, rv)"
    and "0 < sint ret" "rv 0 \<noteq> 0"
    and "read_sock_ret os (trace st @ [Poll (ports_portptr st),
                                       Read_sock (fd (ports_VportFd st ! 0))])
           = (n, ident, dlc, bytes)"
    and "0 \<le> n" "ident \<noteq> PKT_ID_UUID_RESP m"
  shows "CanRxThread_iter m os st =
     (case CanRx_frame m os \<lparr>can_id = ident, can_dlc = dlc, data = map bytes [0..<CAN_DATA_SIZE]\<rparr>
             (emit (Read_sock (fd (ports_VportFd st ! 0))) (snd (CanRx_poll os st))) of
        Inl e \<Rightarrow> Inl e
      | Inr (u, st2) \<Rightarrow>
          (case CanRx_inotify m os st2 of
             Inl e \<Rightarrow> Inl e
           | Inr (u, st3) \<Rightarrow> Inr (False, st3)))"
proof -
  define st1 where "st1 = snd (CanRx_poll os st)"
  have p: "CanRx_poll os st = (ret, st1)"
    using CanRx_poll_frame [of st os] assms(3) by (simp add: st1_def prod_eq_iff)
  have c0: "fd (ports_VportFd st1 ! 0) = fd (ports_VportFd st ! 0)"
    "revents (ports_VportFd st1 ! 0) = rv 0"
    using CanRx_poll_cells [OF assms(1,2), of os] assms(3) by (simp_all add: st1_def)
  have tr: "trace st1 = trace st @ [Poll (ports_portptr st)]"
    using CanRx_poll_rest [of os st] by (simp add: st1_def)
  have rd: "read_sock_ret os (trace st1 @ [Read_sock (fd (ports_VportFd st1 ! 0))])
              = (n, ident, dlc, bytes)"
    using assms(6) by (simp add: tr c0)
  have s: "CanRx_sock m os st1 =
     (case CanRx_frame m os \<lparr>can_id = ident, can_dlc = dlc, data = map bytes [0..<CAN_DATA_SIZE]\<rparr>
             (emit (Read_sock (fd (ports_VportFd st1 ! 0))) st1) of
        Inl e \<Rightarrow> Inl e
      | Inr (u, s) \<Rightarrow> Inr (False, s))"
    by (rule CanRx_sock_data_frame [OF rd assms(7,8)])
  have rdy: "CanRx_ready m os ret st1 = CanRx_sock m os st1"
    using assms(4,5) by (simp add: CanRx_ready_def c0)
  show ?thesis
    unfolding CanRxThread_iter_def p st1_def [symmetric]
    by (simp add: rdy s c0(1) split: sum.splits)
qed

lemma CanRxThread_iter_frame:
  assumes "table_ok st" "CanRx_reads_frame m os st frame"
  shows "CanRxThread_iter m os st =
     (case CanRx_frame m os frame
             (emit (Read_sock (fd (ports_VportFd st ! 0))) (snd (CanRx_poll os st))) of
        Inl e \<Rightarrow> Inl e
      | Inr (u, st2) \<Rightarrow>
          (case CanRx_inotify m os st2 of
             Inl e \<Rightarrow> Inl e
           | Inr (u, st3) \<Rightarrow> Inr (False, st3)))"
    and "length (data frame) = CAN_DATA_SIZE"
proof -
  obtain ret rv where p: "poll_ret os (trace st @ [Poll (ports_portptr st)]) = (ret, rv)"
    by (cases "poll_ret os (trace st @ [Poll (ports_portptr st)])")
  obtain n ident dlc bytes where r:
    "read_sock_ret os (trace st @ [Poll (ports_portptr st),
                                   Read_sock (fd (ports_VportFd st ! 0))])
       = (n, ident, dlc, bytes)"
    by (cases "read_sock_ret os (trace st @ [Poll (ports_portptr st),
                                   Read_sock (fd (ports_VportFd st ! 0))])")
  have f: "0 < sint ret" "rv 0 \<noteq> 0" "0 \<le> n" "ident \<noteq> PKT_ID_UUID_RESP m"
    "frame = \<lparr>can_id = ident, can_dlc = dlc, data = map bytes [0..<CAN_DATA_SIZE]\<rparr>"
    using assms(2) p r by (simp_all add: CanRx_reads_frame_def)
  have b: "0 < ports_portptr st" "ports_portptr st \<le> length (ports_VportFd st)"
    using assms(1) by (simp_all add: table_ok_def)
  show "CanRxThread_iter m os st =
     (case CanRx_frame m os frame
             (emit (Read_sock (fd (ports_VportFd st ! 0))) (snd (CanRx_poll os st))) of
        Inl e \<Rightarrow> Inl e
      | Inr (u, st2) \<Rightarrow>
          (case CanRx_inotify m os st2 of
             Inl e \<Rightarrow> Inl e
           | Inr (u, st3) \<Rightarrow> Inr (False, st3)))"
    unfolding f(5) by (rule CanRxThread_iter_data [OF b p f(1,2) r f(3,4)])
  show "length (data frame) = CAN_DATA_SIZE" by (simp add: f(5))
qed

lemma CanRxThread_iter_frame_Some:
  assumes ok: "table_ok st" and rf: "CanRx_reads_frame m os st frame"
    and lk: "CanRx_lookup frame st = Some i"
    and le: "can_dlc frame \<le> 8 \<or> active (ports_p st ! i) = 0"
  shows "\<exists>st' es. CanRxThread_iter m os st = Inr (False, st') \<and>
      added st st' =
        [Poll (ports_portptr st), Read_sock (fd (ports_VportFd st ! 0))]
        @ (if 0 < can_dlc frame \<and> active (ports_p st ! i) \<noteq> 0
           then [Write_pty (fd (ports_VportFd st ! i))
                   (take (unat (can_dlc frame)) (data frame))]
           else [])
        @ Read_inotify (Inotify st) # es \<and>
      filter is_pty_write es = [] \<and>
      (\<forall>j. pingcount (ports_p st' ! j) =
           pingcount ((ports_p st)[i := (ports_p st ! i)
                                    \<lparr>pingcount := PINGS_BEFORE_DISCONNECT m\<rparr>] ! j))"
proof -
  define st1 where "st1 = emit (Read_sock (fd (ports_VportFd st ! 0))) (snd (CanRx_poll os st))"
  note it = CanRxThread_iter_frame [OF ok rf]
  have i: "0 < i" "i < ports_portptr st"
    using lk by (simp_all add: CanRx_lookup_def find_upt_Some)
  have b: "ports_portptr st \<le> length (ports_VportFd st)"
    using ok by (simp add: table_ok_def)
  have s1: "trace st1 = trace st @ [Poll (ports_portptr st), Read_sock (fd (ports_VportFd st ! 0))]"
    "ports_p st1 = ports_p st" "ports_portptr st1 = ports_portptr st" "Inotify st1 = Inotify st"
    using CanRx_poll_rest [of os st] by (simp_all add: st1_def emit_def)
  have fdi: "fd (ports_VportFd st1 ! i) = fd (ports_VportFd st ! i)"
    using CanRx_poll_cells [OF i(2) b, of os] by (simp add: st1_def emit_def)
  have lk1: "CanRx_lookup frame st1 = Some i"
    using lk by (simp add: CanRx_lookup_def s1)
  have "unat (can_dlc frame) \<le> 8 \<or> active (ports_p st ! i) = 0"
    using le by (auto simp add: word_le_nat_alt)
  then have fit: "can_dlc frame = 0 \<or> active (ports_p st1 ! i) = 0 \<or>
      unat (can_dlc frame) \<le> length (data frame)"
    using it(2) by (auto simp add: CAN_DATA_SIZE_def s1)
  define W where "W = (if 0 < can_dlc frame \<and> active (ports_p st ! i) \<noteq> 0
           then [Write_pty (fd (ports_VportFd st ! i))
                   (take (unat (can_dlc frame)) (data frame))]
           else [])"
  define st2 where "st2 = st1\<lparr>trace := trace st1 @ W,
      ports_p := (ports_p st1)[i := (ports_p st1 ! i)\<lparr>pingcount := PINGS_BEFORE_DISCONNECT m\<rparr>]\<rparr>"
  have fr: "CanRx_frame m os frame st1 = Inr ((), st2)"
    using CanRx_frame_Some [OF lk1 fit, of m os] by (simp add: st2_def W_def s1 fdi)
  obtain st3 es where ino: "CanRx_inotify m os st2 = Inr ((), st3)"
    and tr: "trace st3 = trace st2 @ Read_inotify (Inotify st2) # es"
    and q: "filter is_pty_write es = []"
    and pc: "\<forall>j. pingcount (ports_p st3 ! j) = pingcount (ports_p st2 ! j)"
    using CanRx_inotify_no_dispatch [of m os st2] by blast
  have r: "CanRxThread_iter m os st = Inr (False, st3)"
    unfolding it(1) st1_def [symmetric] by (simp add: fr ino)
  have a: "added st st3 =
        [Poll (ports_portptr st), Read_sock (fd (ports_VportFd st ! 0))] @ W
        @ Read_inotify (Inotify st) # es"
    by (simp add: added_def tr st2_def s1)
  have p: "\<forall>j. pingcount (ports_p st3 ! j) =
           pingcount ((ports_p st)[i := (ports_p st ! i)
                                    \<lparr>pingcount := PINGS_BEFORE_DISCONNECT m\<rparr>] ! j)"
    using pc by (simp add: st2_def s1)
  show ?thesis using r a q p unfolding W_def by blast
qed

lemma CanRxThread_iter_frame_None:
  assumes ok: "table_ok st" and rf: "CanRx_reads_frame m os st frame"
    and lk: "CanRx_lookup frame st = None"
  shows "\<exists>st' es. CanRxThread_iter m os st = Inr (False, st') \<and>
      added st st' =
        [Poll (ports_portptr st), Read_sock (fd (ports_VportFd st ! 0)),
         Write_sock (sock st)
           \<lparr>can_id = PKT_ID_UUID m, can_dlc = 2,
            data = le_bytes 2 (ucast (can_id frame - 1) :: 16 word)\<rparr>,
         Read_inotify (Inotify st)] @ es \<and>
      filter is_pty_write es = [] \<and>
      (\<forall>j. pingcount (ports_p st' ! j) = pingcount (ports_p st ! j))"
proof -
  define st1 where "st1 = emit (Read_sock (fd (ports_VportFd st ! 0))) (snd (CanRx_poll os st))"
  note it = CanRxThread_iter_frame [OF ok rf]
  have s1: "trace st1 = trace st @ [Poll (ports_portptr st), Read_sock (fd (ports_VportFd st ! 0))]"
    "ports_p st1 = ports_p st" "ports_portptr st1 = ports_portptr st" "Inotify st1 = Inotify st"
    "sock st1 = sock st"
    using CanRx_poll_rest [of os st] by (simp_all add: st1_def emit_def)
  have lk1: "CanRx_lookup frame st1 = None"
    using lk by (simp add: CanRx_lookup_def s1)
  define st2 where "st2 = st1\<lparr>trace := trace st1 @
                   [Write_sock (sock st1)
                      \<lparr>can_id = PKT_ID_UUID m, can_dlc = 2,
                       data = le_bytes 2 (ucast (can_id frame - 1) :: 16 word)\<rparr>]\<rparr>"
  have fr: "CanRx_frame m os frame st1 = Inr ((), st2)"
    using CanRx_frame_None [OF lk1, of m os] by (simp add: st2_def)
  obtain st3 es where ino: "CanRx_inotify m os st2 = Inr ((), st3)"
    and tr: "trace st3 = trace st2 @ Read_inotify (Inotify st2) # es"
    and q: "filter is_pty_write es = []"
    and pc: "\<forall>j. pingcount (ports_p st3 ! j) = pingcount (ports_p st2 ! j)"
    using CanRx_inotify_no_dispatch [of m os st2] by blast
  have r: "CanRxThread_iter m os st = Inr (False, st3)"
    unfolding it(1) st1_def [symmetric] by (simp add: fr ino)
  have a: "added st st3 =
        [Poll (ports_portptr st), Read_sock (fd (ports_VportFd st ! 0)),
         Write_sock (sock st)
           \<lparr>can_id = PKT_ID_UUID m, can_dlc = 2,
            data = le_bytes 2 (ucast (can_id frame - 1) :: 16 word)\<rparr>,
         Read_inotify (Inotify st)] @ es"
    by (simp add: added_def tr st2_def s1)
  have p: "\<forall>j. pingcount (ports_p st3 ! j) = pingcount (ports_p st ! j)"
    using pc by (simp add: st2_def s1)
  show ?thesis using r a q p by blast
qed

lemma CanRxThread_iter_frame_over_read:
  assumes ok: "table_ok st" and rf: "CanRx_reads_frame m os st frame"
    and lk: "CanRx_lookup frame st = Some i"
    and big: "8 < can_dlc frame" "active (ports_p st ! i) \<noteq> 0"
  shows "\<exists>s. CanRxThread_iter m os st = Inl (Bad_read, s) \<and>
           added st s = [Poll (ports_portptr st), Read_sock (fd (ports_VportFd st ! 0))]"
proof -
  define st1 where "st1 = emit (Read_sock (fd (ports_VportFd st ! 0))) (snd (CanRx_poll os st))"
  note it = CanRxThread_iter_frame [OF ok rf]
  have s1: "trace st1 = trace st @ [Poll (ports_portptr st), Read_sock (fd (ports_VportFd st ! 0))]"
    "ports_p st1 = ports_p st" "ports_portptr st1 = ports_portptr st"
    using CanRx_poll_rest [of os st] by (simp_all add: st1_def emit_def)
  have lk1: "CanRx_lookup frame st1 = Some i"
    using lk by (simp add: CanRx_lookup_def s1)
  have "8 < unat (can_dlc frame)" using big(1) by (simp add: word_less_nat_alt)
  then have over: "length (data frame) < unat (can_dlc frame)"
    using it(2) by (simp add: CAN_DATA_SIZE_def)
  have pos: "0 < can_dlc frame" using big(1) by (simp add: word_less_nat_alt)
  have "CanRx_frame m os frame st1 = Inl (Bad_read, st1)"
    by (rule CanRx_frame_over_read [OF lk1 pos _ over]) (simp add: s1 big(2))
  then have "CanRxThread_iter m os st = Inl (Bad_read, st1)"
    unfolding it(1) st1_def [symmetric] by simp
  then show ?thesis by (simp add: added_def s1)
qed

subsection \<open>\<^verbatim>\<open>ConfigurePort\<close>: when it does not return\<close>

lemma CanVport_lookup_emit [simp]: "CanVport_lookup portid (emit e st) = CanVport_lookup portid st"
  by (simp add: CanVport_lookup_def emit_def)

lemma CanVport_exits:
  assumes "CanVport_lookup portid st = None" "ports_portptr st = ports_portsize st"
    and "realloc_ret os (trace st @ [Realloc_p (ports_portsize st * 2),
                                     Realloc_VportFd (ports_portsize st * 2)]) = None"
  shows "CanVport m os portid uuid st =
     Inl (Exited 1,
          st\<lparr>ports_portsize := ports_portsize st * 2,
             trace := trace st @ [Realloc_p (ports_portsize st * 2),
                                  Realloc_VportFd (ports_portsize st * 2), Exit 1]\<rparr>)"
  using assms by (simp add: CanVport_def CanVport_grow_def Let_def emit_def)

lemma CanVport_stops_why:
  assumes "CanVport m os portid uuid st = Inl (e, s)"
  shows "CanVport_lookup portid st = None \<and>
         realloc_ret os (trace st @ [Realloc_p (ports_portsize st * 2),
                                     Realloc_VportFd (ports_portsize st * 2)]) = None"
proof (cases "CanVport_lookup portid st")
  case (Some i)
  then show ?thesis using assms by (simp add: CanVport_def)
next
  case None
  show ?thesis
  proof (cases "CanVport_grow os st")
    case (Inl a)
    then show ?thesis using None
      by (auto simp add: CanVport_grow_def Let_def emit_def split: if_splits option.splits)
  next
    case (Inr b)
    obtain u st1 where "b = (u, st1)" by (cases b)
    then have "CanVport_open m os portid uuid st1 = Inl (e, s)"
      using assms None Inr by (simp add: CanVport_def)
    then show ?thesis using CanVport_open_returns [of m os portid uuid st1] by auto
  qed
qed

lemma ConfigurePort_passes_stop:
  assumes "CanVport m os (PnGetNumber_ret os (trace st @ [Call_PnGetNumber (data frame)]))
           (take CAN_UUID_SIZE (data frame)) (emit (Call_PnGetNumber (data frame)) st)
         = Inl (e, s)"
  shows "ConfigurePort m os frame st = Inl (e, s)"
  using assms by (simp add: ConfigurePort_def Let_def emit_def)

lemma ConfigurePort_exits_when:
  assumes "CanVport_lookup (PnGetNumber_ret os (trace st @ [Call_PnGetNumber (data frame)])) st
             = None"
    and "ports_portptr st = ports_portsize st"
    and "realloc_ret os (trace st @ [Call_PnGetNumber (data frame),
                                     Realloc_p (ports_portsize st * 2),
                                     Realloc_VportFd (ports_portsize st * 2)]) = None"
  shows "ConfigurePort m os frame st =
     Inl (Exited 1,
          st\<lparr>ports_portsize := ports_portsize st * 2,
             trace := trace st @ [Call_PnGetNumber (data frame),
                                  Realloc_p (ports_portsize st * 2),
                                  Realloc_VportFd (ports_portsize st * 2), Exit 1]\<rparr>)"
proof -
  let ?st1 = "emit (Call_PnGetNumber (data frame)) st"
  let ?pid = "PnGetNumber_ret os (trace st @ [Call_PnGetNumber (data frame)])"
  have "CanVport m os ?pid (take CAN_UUID_SIZE (data frame)) ?st1 =
     Inl (Exited 1,
          ?st1\<lparr>ports_portsize := ports_portsize ?st1 * 2,
             trace := trace ?st1 @ [Realloc_p (ports_portsize ?st1 * 2),
                                  Realloc_VportFd (ports_portsize ?st1 * 2), Exit 1]\<rparr>)"
  proof (rule CanVport_exits)
    show "CanVport_lookup ?pid ?st1 = None" using assms(1) by simp
    show "ports_portptr ?st1 = ports_portsize ?st1" using assms(2) by (simp add: emit_def)
    show "realloc_ret os (trace ?st1 @ [Realloc_p (ports_portsize ?st1 * 2),
                                        Realloc_VportFd (ports_portsize ?st1 * 2)]) = None"
      using assms(3) by (simp add: emit_def)
  qed
  then show ?thesis
    using ConfigurePort_passes_stop [of m os st frame] by (simp add: emit_def)
qed

lemma ConfigurePort_stops_why:
  assumes "CAN_UUID_SIZE \<le> length (data frame)"
    and "ConfigurePort m os frame st = Inl (e, s)"
  shows "CanVport_lookup (PnGetNumber_ret os (trace st @ [Call_PnGetNumber (data frame)])) st
             = None \<and>
         realloc_ret os (trace st @ [Call_PnGetNumber (data frame),
                                     Realloc_p (ports_portsize st * 2),
                                     Realloc_VportFd (ports_portsize st * 2)]) = None"
proof -
  let ?pid = "PnGetNumber_ret os (trace st @ [Call_PnGetNumber (data frame)])"
  let ?st1 = "emit (Call_PnGetNumber (data frame)) st"
  show ?thesis
  proof (cases "CanVport m os ?pid (take CAN_UUID_SIZE (data frame)) ?st1")
    case (Inl a)
    obtain e' s' where a: "a = (e', s')" by (cases a)
    from CanVport_stops_why [OF Inl [unfolded a]] show ?thesis
      by (simp add: emit_def CanVport_lookup_def)
  next
    case (Inr b)
    obtain r1 st2 where "b = (r1, st2)" by (cases b)
    then show ?thesis
      using ConfigurePort_after_CanVport [OF assms(1), of m os st r1 st2] Inr assms(2) by simp
  qed
qed

lemma CanRxThread_iter_no_break:
  assumes "CanRxThread_iter m os st = Inr (b, st')"
  shows "\<not> b"
proof -
  obtain ret st1 where p: "CanRx_poll os st = (ret, st1)" by (cases "CanRx_poll os st")
  obtain brk st2 where rdy: "CanRx_ready m os ret st1 = Inr (brk, st2)"
    using assms p by (auto simp add: CanRxThread_iter_def split: sum.splits)
  have "\<not> brk"
    using rdy
    by (auto simp add: CanRx_ready_def split: if_splits sum.splits dest: CanRx_sock_no_break)
  then show ?thesis
    using assms p rdy by (auto simp add: CanRxThread_iter_def split: sum.splits)
qed

section \<open>The claims\<close>

subsection \<open>\<^verbatim>\<open>CanSockSend\<close>\<close>

text \<open>
  C5. For every identifier and payload, \<^verbatim>\<open>CanSockSend\<close> returns \<^verbatim>\<open>EINVAL\<close> when
  the length exceeds 8, and the state is then the one it was called in, so nothing was
  written to the socket. With a length of at most 8 and a buffer that covers it, the frame
  is written and \<^verbatim>\<open>EIO\<close> is returned when \<^verbatim>\<open>write\<close> answers anything but the size of
  a frame, fewer bytes in particular. However the call ends, the port table (both arrays,
  \<^verbatim>\<open>portsize\<close> and \<^verbatim>\<open>portptr\<close>) is as before.
\<close>

theorem CanSockSend_errors:
  "(8 < len \<longrightarrow> CanSockSend m os ident len buf st = Inr (EINVAL, st)) \<and>
   (len \<le> 8 \<and> (len = 0 \<or> (\<exists>bs. buf = Some bs \<and> unat len \<le> length bs)) \<and>
    write_ret os (trace st @
        [Write_sock (sock st) \<lparr>can_id = ident, can_dlc = len, data = take (unat len) (the buf)\<rparr>])
      \<noteq> int (sizeof_tCanFrame m) \<longrightarrow>
    CanSockSend m os ident len buf st =
      Inr (EIO, st\<lparr>trace := trace st @
        [Write_sock (sock st) \<lparr>can_id = ident, can_dlc = len, data = take (unat len) (the buf)\<rparr>]\<rparr>)) \<and>
   ports_p (state_of (CanSockSend m os ident len buf st)) = ports_p st \<and>
   ports_VportFd (state_of (CanSockSend m os ident len buf st)) = ports_VportFd st \<and>
   ports_portsize (state_of (CanSockSend m os ident len buf st)) = ports_portsize st \<and>
   ports_portptr (state_of (CanSockSend m os ident len buf st)) = ports_portptr st"
  by (auto simp add: CanSockSend_def emit_def Let_def state_of_def split: option.splits)

theorem CanSockSend_errors_witness:
  "(8 :: byte) < 9 \<and>
   CanSockSend ex_macros ex_os 0x321 9 (Some [1, 2, 3, 4, 5, 6, 7, 8, 9]) ex_state
     = Inr (EINVAL, ex_state) \<and>
   (2 :: byte) \<le> 8 \<and>
   write_ret (ex_os\<lparr>write_ret := \<lambda>tr. 3\<rparr>)
       (trace ex_state @
          [Write_sock (sock ex_state) \<lparr>can_id = 0x321, can_dlc = 2, data = [0x85, 1]\<rparr>])
     \<noteq> int (sizeof_tCanFrame ex_macros) \<and>
   CanSockSend ex_macros (ex_os\<lparr>write_ret := \<lambda>tr. 3\<rparr>) 0x321 2 (Some [0x85, 1]) ex_state =
     Inr (EIO, ex_state\<lparr>trace := trace ex_state @
        [Write_sock (sock ex_state) \<lparr>can_id = 0x321, can_dlc = 2, data = [0x85, 1]\<rparr>]\<rparr>) \<and>
   ports_p (state_of (CanSockSend ex_macros (ex_os\<lparr>write_ret := \<lambda>tr. 3\<rparr>) 0x321 2
                        (Some [0x85, 1]) ex_state))
     = ports_p ex_state"
proof -
  let ?os = "ex_os\<lparr>write_ret := \<lambda>tr. 3\<rparr>"
  have a: "(8 :: byte) < 9" by simp
  have b: "(2 :: byte) \<le> 8" by simp
  have c: "\<exists>bs. Some [0x85, 1 :: byte] = Some bs \<and> unat (2 :: byte) \<le> length bs" by simp
  have d: "write_ret ?os
       (trace ex_state @
          [Write_sock (sock ex_state) \<lparr>can_id = 0x321, can_dlc = 2, data = [0x85, 1]\<rparr>])
     \<noteq> int (sizeof_tCanFrame ex_macros)"
    by (simp add: ex_macros_def)
  have e: "take (unat (2 :: byte)) (the (Some [0x85, 1 :: byte])) = [0x85, 1]" by simp
  have 1: "CanSockSend ex_macros ex_os 0x321 9 (Some [1, 2, 3, 4, 5, 6, 7, 8, 9]) ex_state
     = Inr (EINVAL, ex_state)"
    using CanSockSend_errors [where len = 9 and m = ex_macros and os = ex_os and ident = "0x321"
        and buf = "Some [1, 2, 3, 4, 5, 6, 7, 8, 9]" and st = ex_state] a by blast
  note 2 = CanSockSend_errors [where len = 2 and m = ex_macros and os = ?os
        and ident = "0x321" and buf = "Some [0x85, 1]" and st = ex_state, unfolded e]
  have 3: "CanSockSend ex_macros ?os 0x321 2 (Some [0x85, 1]) ex_state =
     Inr (EIO, ex_state\<lparr>trace := trace ex_state @
        [Write_sock (sock ex_state) \<lparr>can_id = 0x321, can_dlc = 2, data = [0x85, 1]\<rparr>]\<rparr>)"
    using 2 b c d by blast
  have 4: "ports_p (state_of (CanSockSend ex_macros ?os 0x321 2 (Some [0x85, 1]) ex_state))
     = ports_p ex_state"
    using 2 by blast
  show ?thesis using a b d 1 3 4 by blast
qed

text \<open>
  C10. With \<^verbatim>\<open>len\<close> equal to 0 the call does the same whatever the \<^verbatim>\<open>data\<close>
  pointer is, \<^verbatim>\<open>NULL\<close> included: it does not stop on a bad read, and it writes one frame
  with \<^verbatim>\<open>can_dlc\<close> 0 and no payload byte defined.
\<close>

theorem CanSockSend_len_0:
  "CanSockSend m os ident 0 buf st = CanSockSend m os ident 0 None st \<and>
   CanSockSend m os ident 0 None st =
     Inr (if write_ret os (trace st @ [Write_sock (sock st) \<lparr>can_id = ident, can_dlc = 0, data = []\<rparr>])
               \<noteq> int (sizeof_tCanFrame m) then EIO else 0,
          st\<lparr>trace := trace st @ [Write_sock (sock st) \<lparr>can_id = ident, can_dlc = 0, data = []\<rparr>]\<rparr>)"
  by (simp add: CanSockSend_def emit_def Let_def)

subsection \<open>\<^verbatim>\<open>CanVportClose\<close>\<close>

text \<open>
  C4. Closing a slot removes its inotify watch and unlinks its symlink, and that is all:
  the state changes in its trace only, and the two calls are the only ones added. Neither
  end of the pseudo-terminal pair is closed; the slave descriptor is not even kept by
  \<^verbatim>\<open>CanVport\<close>.
\<close>

theorem CanVportClose_calls:
  "CanVportClose q st =
     st\<lparr>trace := trace st @ [Inotify_rm_watch (Inotify st) (watch q), Unlink (CanTtyName q)]\<rparr>"
  by (simp add: CanVportClose_def emit_def Let_def)

subsection \<open>\<^verbatim>\<open>CanPing\<close>\<close>

text \<open>
  C1. On the example table of three slots with the cursor on the first, which has no
  credit left, \<^verbatim>\<open>CanPing\<close> leaves the cursor where it is and leaves a table of two
  slots, but both are the slot that followed the reaped one: the slot for port 3 is lost
  and the slot for port 2 is there twice. Deleting the reaped slot would have left the
  slots for ports 2 and 3.
\<close>

theorem CanPing_reap_overwrites:
  "pingptr ex_state = 1 \<and>
   pingcount (ports_p ex_state ! 1) = 0 \<and>
   table ex_state = [ex_cell, ex_slot 1 0, ex_slot 2 3, ex_slot 3 3] \<and>
   map_sum fst (table \<circ> snd) (CanPing ex_macros ex_os ex_state)
     = Inr [ex_cell, ex_slot 2 3, ex_slot 2 3] \<and>
   map_sum fst (pingptr \<circ> snd) (CanPing ex_macros ex_os ex_state) = Inr 1 \<and>
   ex_slot 2 3 \<noteq> ex_slot 3 3"
  using CanPing_reap [of ex_state ex_macros ex_os]
  by (simp add: ex_state_def ex_slot_def table_def)

text \<open>
  C8. On a slot with credit left, \<^verbatim>\<open>CanPing\<close> decrements the credit, writes an empty
  frame with the slot's \<^verbatim>\<open>canid\<close> exactly when the decremented credit is below 2, and
  advances the cursor. Over one reap cycle of a slot that starts with credit \<open>n\<close>, the
  first \<open>k\<close> invocations for the slot have written \<open>k - (n - 2)\<close> pings: none during
  the first \<open>n - 2\<close> invocations, one in each of the last two.
\<close>

theorem CanPing_credit:
  assumes "pingptr st \<noteq> 0" "pingptr st < ports_portptr st" "pingptr st < length (ports_p st)"
    and "pingcount (ports_p st ! pingptr st) \<noteq> 0"
  shows "CanPing m os st =
     Inr ((), st\<lparr>ports_p := (ports_p st)[pingptr st :=
                     (ports_p st ! pingptr st)
                       \<lparr>pingcount := pingcount (ports_p st ! pingptr st) - 1\<rparr>],
                 pingptr := pingptr st + 1,
                 trace := trace st @
                   (if sint (pingcount (ports_p st ! pingptr st) - 1) < 2
                    then [Write_sock (sock st)
                            \<lparr>can_id = canid (ports_p st ! pingptr st), can_dlc = 0, data = []\<rparr>]
                    else [])\<rparr>) \<and>
   (\<forall>n k. sint (pingcount (ports_p st ! pingptr st)) = int n \<and> k \<le> n \<longrightarrow>
      CanPing_slot m os (pingptr st) k st =
        Inr ((), st\<lparr>ports_p := (ports_p st)[pingptr st :=
                        (ports_p st ! pingptr st)
                          \<lparr>pingcount := pingcount (ports_p st ! pingptr st) - of_nat k\<rparr>],
                    pingptr := (if k = 0 then pingptr st else pingptr st + 1),
                    trace := trace st @
                      replicate (k - (n - 2))
                        (Write_sock (sock st)
                           \<lparr>can_id = canid (ports_p st ! pingptr st), can_dlc = 0, data = []\<rparr>)\<rparr>))"
  using CanPing_dec [OF assms, of m os] CanPing_slot_cycle [OF assms(1-3), of _ _ m os]
  by (simp add: ping_frame_def)

theorem CanPing_credit_witness:
  "pingptr (ex_state\<lparr>pingptr := 2\<rparr>) \<noteq> 0 \<and>
   pingptr (ex_state\<lparr>pingptr := 2\<rparr>) < ports_portptr (ex_state\<lparr>pingptr := 2\<rparr>) \<and>
   pingptr (ex_state\<lparr>pingptr := 2\<rparr>) < length (ports_p (ex_state\<lparr>pingptr := 2\<rparr>)) \<and>
   pingcount (ports_p (ex_state\<lparr>pingptr := 2\<rparr>) ! 2) = 3 \<and>
   CanPing ex_macros ex_os (ex_state\<lparr>pingptr := 2\<rparr>) =
     Inr ((), ex_state\<lparr>ports_p := (ports_p ex_state)[2 := ex_slot 2 2], pingptr := 3\<rparr>) \<and>
   CanPing_slot ex_macros ex_os 2 3 (ex_state\<lparr>pingptr := 2\<rparr>) =
     Inr ((), ex_state\<lparr>ports_p := (ports_p ex_state)[2 := ex_slot 2 0], pingptr := 3,
                trace := [Write_sock 3 \<lparr>can_id = 0x184, can_dlc = 0, data = []\<rparr>,
                          Write_sock 3 \<lparr>can_id = 0x184, can_dlc = 0, data = []\<rparr>]\<rparr>)"
proof -
  let ?s = "ex_state\<lparr>pingptr := 2\<rparr>"
  have a: "pingptr ?s \<noteq> 0" "pingptr ?s < ports_portptr ?s" "pingptr ?s < length (ports_p ?s)"
    "pingcount (ports_p ?s ! pingptr ?s) \<noteq> 0"
    by (simp_all add: ex_state_def ex_slot_def)
  have n: "sint (pingcount (ports_p ?s ! pingptr ?s)) = int 3 \<and> (3::nat) \<le> 3"
    by (simp add: ex_state_def ex_slot_def)
  note t = CanPing_credit [OF a, of ex_macros ex_os]
  have 1: "CanPing ex_macros ex_os ?s =
     Inr ((), ex_state\<lparr>ports_p := (ports_p ex_state)[2 := ex_slot 2 2], pingptr := 3\<rparr>)"
    using t by (simp add: ex_state_def ex_slot_def)
  have 2: "CanPing_slot ex_macros ex_os (pingptr ?s) 3 ?s =
     Inr ((), ex_state\<lparr>ports_p := (ports_p ex_state)[2 := ex_slot 2 0], pingptr := 3,
                trace := [Write_sock 3 \<lparr>can_id = 0x184, can_dlc = 0, data = []\<rparr>,
                          Write_sock 3 \<lparr>can_id = 0x184, can_dlc = 0, data = []\<rparr>]\<rparr>)"
  proof -
    have r: "replicate 2 x = [x, x]" for x :: event
      by (simp add: numeral_2_eq_2)
    show ?thesis
      using t [THEN conjunct2, rule_format, OF n]
      by (simp add: ex_state_def ex_slot_def r)
  qed
  show ?thesis using a 1 2 by (simp add: ex_state_def ex_slot_def)
qed

subsection \<open>\<^verbatim>\<open>CanRxThread\<close>: dispatch of a data frame\<close>

text \<open>
  C3. An iteration of the multiplexer reads a frame that is not a discovery response and
  that matches the slot \<open>i\<close>; the frame has a \<^verbatim>\<open>can_dlc\<close> of at most 8, as a CAN
  frame has, or the slot is detached. Then the iteration completes, the payload is written
  to the PTY master of slot \<open>i\<close> exactly when \<^verbatim>\<open>can_dlc\<close> is above 0 and the slot is
  attached (\<^verbatim>\<open>active\<close> is not 0), no other write to a PTY master happens, and the
  credit of the slot is \<^verbatim>\<open>PINGS_BEFORE_DISCONNECT\<close> afterwards in either case.
\<close>

theorem CanRxThread_iter_match:
  assumes "table_ok st" "CanRx_reads_frame m os st frame"
    and "CanRx_lookup frame st = Some i"
    and "can_dlc frame \<le> 8 \<or> active (ports_p st ! i) = 0"
  shows "\<exists>st'. CanRxThread_iter m os st = Inr (False, st') \<and>
           filter is_pty_write (added st st') =
             (if 0 < can_dlc frame \<and> active (ports_p st ! i) \<noteq> 0
              then [Write_pty (fd (ports_VportFd st ! i))
                      (take (unat (can_dlc frame)) (data frame))]
              else []) \<and>
           pingcount (ports_p st' ! i) = PINGS_BEFORE_DISCONNECT m"
proof -
  obtain st' es where r: "CanRxThread_iter m os st = Inr (False, st')"
    and a: "added st st' =
        [Poll (ports_portptr st), Read_sock (fd (ports_VportFd st ! 0))]
        @ (if 0 < can_dlc frame \<and> active (ports_p st ! i) \<noteq> 0
           then [Write_pty (fd (ports_VportFd st ! i))
                   (take (unat (can_dlc frame)) (data frame))]
           else [])
        @ Read_inotify (Inotify st) # es"
    and q: "filter is_pty_write es = []"
    and p: "\<forall>j. pingcount (ports_p st' ! j) =
           pingcount ((ports_p st)[i := (ports_p st ! i)
                                    \<lparr>pingcount := PINGS_BEFORE_DISCONNECT m\<rparr>] ! j)"
    using CanRxThread_iter_frame_Some [OF assms] by blast
  have "i < ports_portptr st"
    using assms(3) by (simp add: CanRx_lookup_def find_upt_Some)
  then have "i < length (ports_p st)" using assms(1) by (simp add: table_ok_def)
  then have "pingcount (ports_p st' ! i) = PINGS_BEFORE_DISCONNECT m" using p by simp
  moreover have "filter is_pty_write (added st st') =
             (if 0 < can_dlc frame \<and> active (ports_p st ! i) \<noteq> 0
              then [Write_pty (fd (ports_VportFd st ! i))
                      (take (unat (can_dlc frame)) (data frame))]
              else [])"
    unfolding a using q by simp
  ultimately show ?thesis using r by blast
qed

theorem CanRxThread_iter_match_witness:
  "table_ok ex_state \<and>
   CanRx_reads_frame ex_macros (ex_os_frame 0x183) ex_state (ex_frame 0x183) \<and>
   CanRx_lookup (ex_frame 0x183) ex_state = Some 1 \<and>
   can_dlc (ex_frame 0x183) \<le> 8 \<and>
   (\<exists>st'. CanRxThread_iter ex_macros (ex_os_frame 0x183) ex_state = Inr (False, st') \<and>
      filter is_pty_write (added ex_state st') = [Write_pty 21 [0x41, 0x42, 0x43]] \<and>
      pingcount (ports_p st' ! 1) = 3)"
proof -
  have a: "table_ok ex_state" by code_simp
  have b: "CanRx_reads_frame ex_macros (ex_os_frame 0x183) ex_state (ex_frame 0x183)"
    by code_simp
  have c: "CanRx_lookup (ex_frame 0x183) ex_state = Some 1" by code_simp
  have d: "can_dlc (ex_frame 0x183) \<le> 8" by code_simp
  have d': "can_dlc (ex_frame 0x183) \<le> 8 \<or> active (ports_p ex_state ! 1) = 0"
    using d by simp
  have e: "(if 0 < can_dlc (ex_frame 0x183) \<and> active (ports_p ex_state ! 1) \<noteq> 0
              then [Write_pty (fd (ports_VportFd ex_state ! 1))
                      (take (unat (can_dlc (ex_frame 0x183))) (data (ex_frame 0x183)))]
              else []) = [Write_pty 21 [0x41, 0x42, 0x43]]" by code_simp
  have f: "PINGS_BEFORE_DISCONNECT ex_macros = 3" by code_simp
  show ?thesis
    using CanRxThread_iter_match [OF a b c d'] a b c d unfolding e f by blast
qed

text \<open>
  C2, as stated, fails: the code matches a slot whose \<^verbatim>\<open>canid\<close> is the frame's
  identifier minus 1, not plus 1. On the example table the slot at index 1 has
  \<^verbatim>\<open>canid\<close> \<open>0x182\<close>. A frame with identifier \<open>0x181\<close>, for which this slot is the one
  the claim names, reaches no slot: the table is unchanged, credit of slot 1 included, and
  a discovery request is sent. A frame with identifier \<open>0x183\<close> is delivered to slot 1,
  whose \<^verbatim>\<open>canid\<close> is not \<open>0x184\<close>, while slot 2, whose \<^verbatim>\<open>canid\<close> is, gets
  nothing. The same holds of the whole iteration that reads either frame: the calls it
  makes and the credits it leaves are the ones listed.
\<close>

theorem CanRx_frame_not_successor:
  "canid (ports_p ex_state ! 1) = can_id (ex_frame 0x181) + 1 \<and>
   CanRx_frame ex_macros ex_os (ex_frame 0x181) ex_state =
     Inr ((), ex_state\<lparr>trace := [Write_sock 3 \<lparr>can_id = 0x321, can_dlc = 2, data = [0x80, 1]\<rparr>]\<rparr>) \<and>
   canid (ports_p ex_state ! 1) \<noteq> can_id (ex_frame 0x183) + 1 \<and>
   canid (ports_p ex_state ! 2) = can_id (ex_frame 0x183) + 1 \<and>
   CanRx_frame ex_macros ex_os (ex_frame 0x183) ex_state =
     Inr ((), ex_state\<lparr>trace := [Write_pty 21 [0x41, 0x42, 0x43]],
                      ports_p := (ports_p ex_state)[1 := ex_slot 1 3]\<rparr>) \<and>
   map pingcount (table ex_state) = [0, 0, 3, 3] \<and>
   CanRx_reads_frame ex_macros (ex_os_frame 0x181) ex_state (ex_frame 0x181) \<and>
   map_sum fst (\<lambda>(b, s). (b, added ex_state s, map pingcount (table s)))
       (CanRxThread_iter ex_macros (ex_os_frame 0x181) ex_state) =
     Inr (False,
          [Poll 4, Read_sock 3,
           Write_sock 3 \<lparr>can_id = 0x321, can_dlc = 2, data = [0x80, 1]\<rparr>, Read_inotify 4],
          [0, 0, 3, 3]) \<and>
   CanRx_reads_frame ex_macros (ex_os_frame 0x183) ex_state (ex_frame 0x183) \<and>
   map_sum fst (\<lambda>(b, s). (b, added ex_state s, map pingcount (table s)))
       (CanRxThread_iter ex_macros (ex_os_frame 0x183) ex_state) =
     Inr (False,
          [Poll 4, Read_sock 3, Write_pty 21 [0x41, 0x42, 0x43], Read_inotify 4],
          [0, 3, 3, 3])"
  by code_simp

text \<open>
  C2, amended. An iteration of the multiplexer that reads a frame which is not a discovery
  response (with a \<^verbatim>\<open>can_dlc\<close> of at most 8, or for a detached slot) dispatches it to
  the first slot \<open>i\<close> from 1 below \<^verbatim>\<open>portptr\<close> with
  \<^verbatim>\<open>p[i].canid == frame.can_id - 1\<close>: the credit of that slot is reset, every other
  cell keeps its credit, and the only write to a PTY master that the iteration can make is
  the payload to the master of slot \<open>i\<close>. When no slot has that \<^verbatim>\<open>canid\<close>, no credit
  changes, nothing is written to a PTY master, and right after the read a discovery
  request carrying the two low bytes of \<^verbatim>\<open>frame.can_id - 1\<close> is written to the bus.
\<close>

theorem CanRxThread_iter_dispatch:
  assumes "table_ok st" "CanRx_reads_frame m os st frame"
  shows "(\<forall>i. CanRx_lookup frame st = Some i \<and>
              (can_dlc frame \<le> 8 \<or> active (ports_p st ! i) = 0) \<longrightarrow>
            0 < i \<and> i < ports_portptr st \<and> canid (ports_p st ! i) = can_id frame - 1 \<and>
            (\<forall>j. 0 < j \<and> j < i \<longrightarrow> canid (ports_p st ! j) \<noteq> can_id frame - 1) \<and>
            (\<exists>st'. CanRxThread_iter m os st = Inr (False, st') \<and>
               pingcount (ports_p st' ! i) = PINGS_BEFORE_DISCONNECT m \<and>
               (\<forall>j. j \<noteq> i \<longrightarrow> pingcount (ports_p st' ! j) = pingcount (ports_p st ! j)) \<and>
               set (filter is_pty_write (added st st')) \<subseteq>
                 {Write_pty (fd (ports_VportFd st ! i))
                    (take (unat (can_dlc frame)) (data frame))})) \<and>
         (CanRx_lookup frame st = None \<longrightarrow>
            (\<forall>j. 0 < j \<and> j < ports_portptr st \<longrightarrow> canid (ports_p st ! j) \<noteq> can_id frame - 1) \<and>
            (\<exists>st'. CanRxThread_iter m os st = Inr (False, st') \<and>
               (\<forall>j. pingcount (ports_p st' ! j) = pingcount (ports_p st ! j)) \<and>
               filter is_pty_write (added st st') = [] \<and>
               take 3 (added st st') =
                 [Poll (ports_portptr st), Read_sock (fd (ports_VportFd st ! 0)),
                  Write_sock (sock st)
                    \<lparr>can_id = PKT_ID_UUID m, can_dlc = 2,
                     data = le_bytes 2 (ucast (can_id frame - 1) :: 16 word)\<rparr>]))"
proof (intro conjI allI impI)
  fix i
  assume h: "CanRx_lookup frame st = Some i \<and>
              (can_dlc frame \<le> 8 \<or> active (ports_p st ! i) = 0)"
  then have f: "1 \<le> i \<and> i < ports_portptr st \<and> canid (ports_p st ! i) = can_id frame - 1 \<and>
      (\<forall>j. 1 \<le> j \<and> j < i \<longrightarrow> canid (ports_p st ! j) \<noteq> can_id frame - 1)"
    by (simp add: CanRx_lookup_def find_upt_Some)
  then show "0 < i" "i < ports_portptr st" "canid (ports_p st ! i) = can_id frame - 1"
    by auto
  show "\<And>j. 0 < j \<and> j < i \<Longrightarrow> canid (ports_p st ! j) \<noteq> can_id frame - 1"
    using f by (simp add: Suc_le_eq)
  have len: "i < length (ports_p st)" using f assms(1) by (simp add: table_ok_def)
  obtain st' es where r: "CanRxThread_iter m os st = Inr (False, st')"
    and a: "added st st' =
        [Poll (ports_portptr st), Read_sock (fd (ports_VportFd st ! 0))]
        @ (if 0 < can_dlc frame \<and> active (ports_p st ! i) \<noteq> 0
           then [Write_pty (fd (ports_VportFd st ! i))
                   (take (unat (can_dlc frame)) (data frame))]
           else [])
        @ Read_inotify (Inotify st) # es"
    and q: "filter is_pty_write es = []"
    and p: "\<forall>j. pingcount (ports_p st' ! j) =
           pingcount ((ports_p st)[i := (ports_p st ! i)
                                    \<lparr>pingcount := PINGS_BEFORE_DISCONNECT m\<rparr>] ! j)"
    using CanRxThread_iter_frame_Some [OF assms, of i] h by blast
  have 1: "pingcount (ports_p st' ! i) = PINGS_BEFORE_DISCONNECT m" using p len by simp
  have 2: "\<forall>j. j \<noteq> i \<longrightarrow> pingcount (ports_p st' ! j) = pingcount (ports_p st ! j)"
    using p by simp
  have 3: "set (filter is_pty_write (added st st')) \<subseteq>
                 {Write_pty (fd (ports_VportFd st ! i))
                    (take (unat (can_dlc frame)) (data frame))}"
    unfolding a using q by auto
  show "\<exists>st'. CanRxThread_iter m os st = Inr (False, st') \<and>
               pingcount (ports_p st' ! i) = PINGS_BEFORE_DISCONNECT m \<and>
               (\<forall>j. j \<noteq> i \<longrightarrow> pingcount (ports_p st' ! j) = pingcount (ports_p st ! j)) \<and>
               set (filter is_pty_write (added st st')) \<subseteq>
                 {Write_pty (fd (ports_VportFd st ! i))
                    (take (unat (can_dlc frame)) (data frame))}"
    using r 1 2 3 by blast
next
  assume n: "CanRx_lookup frame st = None"
  then show "\<And>j. 0 < j \<and> j < ports_portptr st \<Longrightarrow> canid (ports_p st ! j) \<noteq> can_id frame - 1"
    by (simp add: CanRx_lookup_def find_upt_None Suc_le_eq)
  obtain st' es where r: "CanRxThread_iter m os st = Inr (False, st')"
    and a: "added st st' =
        [Poll (ports_portptr st), Read_sock (fd (ports_VportFd st ! 0)),
         Write_sock (sock st)
           \<lparr>can_id = PKT_ID_UUID m, can_dlc = 2,
            data = le_bytes 2 (ucast (can_id frame - 1) :: 16 word)\<rparr>,
         Read_inotify (Inotify st)] @ es"
    and q: "filter is_pty_write es = []"
    and p: "\<forall>j. pingcount (ports_p st' ! j) = pingcount (ports_p st ! j)"
    using CanRxThread_iter_frame_None [OF assms n] by blast
  have 1: "filter is_pty_write (added st st') = []" unfolding a using q by simp
  have 2: "take 3 (added st st') =
                 [Poll (ports_portptr st), Read_sock (fd (ports_VportFd st ! 0)),
                  Write_sock (sock st)
                    \<lparr>can_id = PKT_ID_UUID m, can_dlc = 2,
                     data = le_bytes 2 (ucast (can_id frame - 1) :: 16 word)\<rparr>]"
    unfolding a by (simp add: numeral_3_eq_3)
  show "\<exists>st'. CanRxThread_iter m os st = Inr (False, st') \<and>
               (\<forall>j. pingcount (ports_p st' ! j) = pingcount (ports_p st ! j)) \<and>
               filter is_pty_write (added st st') = [] \<and>
               take 3 (added st st') =
                 [Poll (ports_portptr st), Read_sock (fd (ports_VportFd st ! 0)),
                  Write_sock (sock st)
                    \<lparr>can_id = PKT_ID_UUID m, can_dlc = 2,
                     data = le_bytes 2 (ucast (can_id frame - 1) :: 16 word)\<rparr>]"
    using r p 1 2 by blast
qed

theorem CanRxThread_iter_dispatch_witness:
  "table_ok ex_state \<and>
   CanRx_reads_frame ex_macros (ex_os_frame 0x183) ex_state (ex_frame 0x183) \<and>
   CanRx_lookup (ex_frame 0x183) ex_state = Some 1 \<and>
   can_dlc (ex_frame 0x183) \<le> 8 \<and>
   canid (ports_p ex_state ! 1) = can_id (ex_frame 0x183) - 1 \<and>
   (\<exists>st'. CanRxThread_iter ex_macros (ex_os_frame 0x183) ex_state = Inr (False, st') \<and>
      pingcount (ports_p st' ! 1) = PINGS_BEFORE_DISCONNECT ex_macros \<and>
      pingcount (ports_p st' ! 2) = pingcount (ports_p ex_state ! 2) \<and>
      set (filter is_pty_write (added ex_state st')) \<subseteq>
        {Write_pty (fd (ports_VportFd ex_state ! 1))
           (take (unat (can_dlc (ex_frame 0x183))) (data (ex_frame 0x183)))}) \<and>
   CanRx_reads_frame ex_macros (ex_os_frame 0x181) ex_state (ex_frame 0x181) \<and>
   CanRx_lookup (ex_frame 0x181) ex_state = None \<and>
   (\<exists>st'. CanRxThread_iter ex_macros (ex_os_frame 0x181) ex_state = Inr (False, st') \<and>
      pingcount (ports_p st' ! 1) = pingcount (ports_p ex_state ! 1) \<and>
      filter is_pty_write (added ex_state st') = [] \<and>
      take 3 (added ex_state st') =
        [Poll (ports_portptr ex_state), Read_sock (fd (ports_VportFd ex_state ! 0)),
         Write_sock (sock ex_state)
           \<lparr>can_id = PKT_ID_UUID ex_macros, can_dlc = 2,
            data = le_bytes 2 (ucast (can_id (ex_frame 0x181) - 1) :: 16 word)\<rparr>])"
proof -
  have a: "table_ok ex_state" by code_simp
  have b3: "CanRx_reads_frame ex_macros (ex_os_frame 0x183) ex_state (ex_frame 0x183)"
    by code_simp
  have b1: "CanRx_reads_frame ex_macros (ex_os_frame 0x181) ex_state (ex_frame 0x181)"
    by code_simp
  have c3: "CanRx_lookup (ex_frame 0x183) ex_state = Some 1" by code_simp
  have c1: "CanRx_lookup (ex_frame 0x181) ex_state = None" by code_simp
  have d: "can_dlc (ex_frame 0x183) \<le> 8" by code_simp
  have n: "(2::nat) \<noteq> 1" by simp
  from CanRxThread_iter_dispatch [OF a b3] c3 d
  have 1: "canid (ports_p ex_state ! 1) = can_id (ex_frame 0x183) - 1"
    and "\<exists>st'. CanRxThread_iter ex_macros (ex_os_frame 0x183) ex_state = Inr (False, st') \<and>
      pingcount (ports_p st' ! 1) = PINGS_BEFORE_DISCONNECT ex_macros \<and>
      (\<forall>j. j \<noteq> 1 \<longrightarrow> pingcount (ports_p st' ! j) = pingcount (ports_p ex_state ! j)) \<and>
      set (filter is_pty_write (added ex_state st')) \<subseteq>
        {Write_pty (fd (ports_VportFd ex_state ! 1))
           (take (unat (can_dlc (ex_frame 0x183))) (data (ex_frame 0x183)))}"
    by blast+
  then have 2: "\<exists>st'. CanRxThread_iter ex_macros (ex_os_frame 0x183) ex_state = Inr (False, st') \<and>
      pingcount (ports_p st' ! 1) = PINGS_BEFORE_DISCONNECT ex_macros \<and>
      pingcount (ports_p st' ! 2) = pingcount (ports_p ex_state ! 2) \<and>
      set (filter is_pty_write (added ex_state st')) \<subseteq>
        {Write_pty (fd (ports_VportFd ex_state ! 1))
           (take (unat (can_dlc (ex_frame 0x183))) (data (ex_frame 0x183)))}"
    using n by blast
  from CanRxThread_iter_dispatch [OF a b1] c1
  have "\<exists>st'. CanRxThread_iter ex_macros (ex_os_frame 0x181) ex_state = Inr (False, st') \<and>
      (\<forall>j. pingcount (ports_p st' ! j) = pingcount (ports_p ex_state ! j)) \<and>
      filter is_pty_write (added ex_state st') = [] \<and>
      take 3 (added ex_state st') =
        [Poll (ports_portptr ex_state), Read_sock (fd (ports_VportFd ex_state ! 0)),
         Write_sock (sock ex_state)
           \<lparr>can_id = PKT_ID_UUID ex_macros, can_dlc = 2,
            data = le_bytes 2 (ucast (can_id (ex_frame 0x181) - 1) :: 16 word)\<rparr>]"
    by blast
  then have 3: "\<exists>st'. CanRxThread_iter ex_macros (ex_os_frame 0x181) ex_state = Inr (False, st') \<and>
      pingcount (ports_p st' ! 1) = pingcount (ports_p ex_state ! 1) \<and>
      filter is_pty_write (added ex_state st') = [] \<and>
      take 3 (added ex_state st') =
        [Poll (ports_portptr ex_state), Read_sock (fd (ports_VportFd ex_state ! 0)),
         Write_sock (sock ex_state)
           \<lparr>can_id = PKT_ID_UUID ex_macros, can_dlc = 2,
            data = le_bytes 2 (ucast (can_id (ex_frame 0x181) - 1) :: 16 word)\<rparr>]"
    by blast
  show ?thesis using a b3 b1 c3 c1 d 1 2 3 by blast
qed

subsection \<open>\<^verbatim>\<open>ConfigurePort\<close>\<close>

text \<open>
  C9, as stated, fails: \<^verbatim>\<open>ConfigurePort\<close> does not return for every frame. With a
  full table and a \<^verbatim>\<open>realloc\<close> that fails, \<^verbatim>\<open>CanVport\<close> calls \<^verbatim>\<open>exit(1)\<close>
  (line 108): the process ends inside \<^verbatim>\<open>ConfigurePort\<close> and no frame has been written
  to the socket.
\<close>

theorem ConfigurePort_exits:
  "ConfigurePort ex_macros (ex_os\<lparr>realloc_ret := \<lambda>tr. None\<rparr>) (ex_resp 9) ex_full =
     Inl (Exited 1,
          ex_full\<lparr>ports_portsize := 16,
                  trace := [Call_PnGetNumber [9, 2, 3, 4, 5, 6, 0, 0], Realloc_p 16,
                            Realloc_VportFd 16, Exit 1]\<rparr>)"
  by code_simp

text \<open>
  C9, amended. For a frame with the bytes of a UUID: \<^verbatim>\<open>ConfigurePort\<close> never returns
  anything but 0; whenever its call of \<^verbatim>\<open>CanVport\<close> returns, with -1 as with an index,
  it writes the SET frame for the port number to the socket and returns 0. Whenever
  \<^verbatim>\<open>CanVport\<close> does not return, \<^verbatim>\<open>ConfigurePort\<close> ends there too; this happens
  exactly when the port number is not in the table, the table is full and \<^verbatim>\<open>realloc\<close>
  fails: the process exits with status 1 and the calls made are \<^verbatim>\<open>PnGetNumber\<close>, the
  two \<^verbatim>\<open>realloc\<close> and \<^verbatim>\<open>exit\<close>, no frame among them. So neither the handler of the
  CAN socket nor an iteration of the loop ever leaves the loop through \<^verbatim>\<open>break\<close>.
\<close>

theorem ConfigurePort_result:
  assumes "CAN_UUID_SIZE \<le> length (data frame)"
  shows "(\<forall>r st'. ConfigurePort m os frame st = Inr (r, st') \<longrightarrow> r = 0) \<and>
    (\<forall>r1 st2.
       CanVport m os (PnGetNumber_ret os (trace st @ [Call_PnGetNumber (data frame)]))
           (take CAN_UUID_SIZE (data frame)) (emit (Call_PnGetNumber (data frame)) st)
         = Inr (r1, st2) \<longrightarrow>
       ConfigurePort m os frame st =
         Inr (0, st2\<lparr>trace := trace st2 @
            [Write_sock (sock st)
               (SET_frame m (PnGetNumber_ret os (trace st @ [Call_PnGetNumber (data frame)]))
                  frame)]\<rparr>)) \<and>
    (\<forall>e s. ConfigurePort m os frame st = Inl (e, s) \<longrightarrow>
       e = Exited 1 \<and> ports_portptr st = ports_portsize st \<and>
       added st s = [Call_PnGetNumber (data frame), Realloc_p (ports_portsize st * 2),
                     Realloc_VportFd (ports_portsize st * 2), Exit 1]) \<and>
    (\<forall>st0 b st'. CanRx_sock m os st0 = Inr (b, st') \<longrightarrow> \<not> b) \<and>
    (\<forall>e s.
       CanVport m os (PnGetNumber_ret os (trace st @ [Call_PnGetNumber (data frame)]))
           (take CAN_UUID_SIZE (data frame)) (emit (Call_PnGetNumber (data frame)) st)
         = Inl (e, s) \<longrightarrow>
       ConfigurePort m os frame st = Inl (e, s)) \<and>
    (CanVport_lookup (PnGetNumber_ret os (trace st @ [Call_PnGetNumber (data frame)])) st = None \<and>
     ports_portptr st = ports_portsize st \<and>
     realloc_ret os (trace st @ [Call_PnGetNumber (data frame),
                                 Realloc_p (ports_portsize st * 2),
                                 Realloc_VportFd (ports_portsize st * 2)]) = None \<longrightarrow>
     ConfigurePort m os frame st =
       Inl (Exited 1,
            st\<lparr>ports_portsize := ports_portsize st * 2,
               trace := trace st @ [Call_PnGetNumber (data frame),
                                    Realloc_p (ports_portsize st * 2),
                                    Realloc_VportFd (ports_portsize st * 2), Exit 1]\<rparr>)) \<and>
    (\<forall>e s. ConfigurePort m os frame st = Inl (e, s) \<longrightarrow>
       CanVport_lookup (PnGetNumber_ret os (trace st @ [Call_PnGetNumber (data frame)])) st = None \<and>
       realloc_ret os (trace st @ [Call_PnGetNumber (data frame),
                                   Realloc_p (ports_portsize st * 2),
                                   Realloc_VportFd (ports_portsize st * 2)]) = None) \<and>
    (\<forall>st0 b st'. CanRxThread_iter m os st0 = Inr (b, st') \<longrightarrow> \<not> b)"
  using ConfigurePort_returns_0 [of m os frame st]
    ConfigurePort_after_CanVport [OF assms, of m os st]
    ConfigurePort_stops [OF assms, of m os st]
    CanRx_sock_no_break [of m os]
    ConfigurePort_passes_stop [of m os st frame]
    ConfigurePort_exits_when [of os st frame m]
    ConfigurePort_stops_why [OF assms, of m os st]
    CanRxThread_iter_no_break [of m os]
  by blast

theorem ConfigurePort_result_witness:
  "CAN_UUID_SIZE \<le> length (data (ex_resp 1)) \<and>
   map_sum fst fst
     (CanVport ex_macros ex_os_nopty 1 [1, 2, 3, 4, 5, 6]
        (emit (Call_PnGetNumber (data (ex_resp 1))) ex_init)) = Inr (- 1) \<and>
   map_sum fst (\<lambda>(r, s). (r, added ex_init s))
     (ConfigurePort ex_macros ex_os_nopty (ex_resp 1) ex_init) =
     Inr (0, [Call_PnGetNumber [1, 2, 3, 4, 5, 6, 0, 0], Openpty,
              Write_sock 3 \<lparr>can_id = 0x322, can_dlc = 8, data = [0x82, 1, 1, 2, 3, 4, 5, 6]\<rparr>]) \<and>
   CAN_UUID_SIZE \<le> length (data (ex_resp 9)) \<and>
   CanVport_lookup 9 ex_full = None \<and>
   ports_portptr ex_full = ports_portsize ex_full \<and>
   ConfigurePort ex_macros ex_os_nomem (ex_resp 9) ex_full =
     Inl (Exited 1,
          ex_full\<lparr>ports_portsize := 16,
                  trace := [Call_PnGetNumber [9, 2, 3, 4, 5, 6, 0, 0], Realloc_p 16,
                            Realloc_VportFd 16, Exit 1]\<rparr>)"
proof -
  let ?st1 = "emit (Call_PnGetNumber (data (ex_resp 1))) ex_init"
  let ?pid = "PnGetNumber_ret ex_os_nopty (trace ex_init @ [Call_PnGetNumber (data (ex_resp 1))])"
  let ?uuid = "take CAN_UUID_SIZE (data (ex_resp 1))"
  let ?v = "CanVport ex_macros ex_os_nopty ?pid ?uuid ?st1"
  have a: "CAN_UUID_SIZE \<le> length (data (ex_resp 1))" by code_simp
  have p: "?pid = 1" by code_simp
  have u: "?uuid = [1, 2, 3, 4, 5, 6]" by code_simp
  have v: "?v = Inr (- 1, state_of ?v)" by code_simp
  have f: "ConfigurePort ex_macros ex_os_nopty (ex_resp 1) ex_init =
     Inr (0, (state_of ?v)\<lparr>trace := trace (state_of ?v) @
            [Write_sock (sock ex_init) (SET_frame ex_macros ?pid (ex_resp 1))]\<rparr>)"
    using ConfigurePort_result [OF a, of ex_macros ex_os_nopty ex_init] v by blast
  have g: "added ex_init ((state_of ?v)\<lparr>trace := trace (state_of ?v) @
            [Write_sock (sock ex_init) (SET_frame ex_macros ?pid (ex_resp 1))]\<rparr>) =
       [Call_PnGetNumber [1, 2, 3, 4, 5, 6, 0, 0], Openpty,
              Write_sock 3 \<lparr>can_id = 0x322, can_dlc = 8, data = [0x82, 1, 1, 2, 3, 4, 5, 6]\<rparr>]"
    by code_simp
  have h: "map_sum fst fst (CanVport ex_macros ex_os_nopty 1 [1, 2, 3, 4, 5, 6] ?st1) = Inr (- 1)"
    using v unfolding p u by (metis fst_conv map_sum.simps(2))
  let ?pid9 = "PnGetNumber_ret ex_os_nomem (trace ex_full @ [Call_PnGetNumber (data (ex_resp 9))])"
  have a9: "CAN_UUID_SIZE \<le> length (data (ex_resp 9))" by code_simp
  have p9: "?pid9 = 9" by code_simp
  have l9: "CanVport_lookup 9 ex_full = None" by code_simp
  have q9: "ports_portptr ex_full = ports_portsize ex_full" by code_simp
  have r9: "realloc_ret ex_os_nomem
              (trace ex_full @ [Call_PnGetNumber (data (ex_resp 9)),
                                Realloc_p (ports_portsize ex_full * 2),
                                Realloc_VportFd (ports_portsize ex_full * 2)]) = None"
    by code_simp
  have x: "ConfigurePort ex_macros ex_os_nomem (ex_resp 9) ex_full =
     Inl (Exited 1,
          ex_full\<lparr>ports_portsize := ports_portsize ex_full * 2,
                  trace := trace ex_full @ [Call_PnGetNumber (data (ex_resp 9)),
                                    Realloc_p (ports_portsize ex_full * 2),
                                    Realloc_VportFd (ports_portsize ex_full * 2), Exit 1]\<rparr>)"
    using ConfigurePort_result [OF a9, of ex_macros ex_os_nomem ex_full] l9 q9 r9
    unfolding p9 by blast
  have y: "ex_full\<lparr>ports_portsize := ports_portsize ex_full * 2,
                  trace := trace ex_full @ [Call_PnGetNumber (data (ex_resp 9)),
                                    Realloc_p (ports_portsize ex_full * 2),
                                    Realloc_VportFd (ports_portsize ex_full * 2), Exit 1]\<rparr>
         = ex_full\<lparr>ports_portsize := 16,
                  trace := [Call_PnGetNumber [9, 2, 3, 4, 5, 6, 0, 0], Realloc_p 16,
                            Realloc_VportFd 16, Exit 1]\<rparr>"
    by code_simp
  show ?thesis
    unfolding f using a g h a9 l9 q9 x [unfolded y] by simp
qed

subsection \<open>\<^verbatim>\<open>CanRxThread\<close>: the order of service in one iteration\<close>

text \<open>
  C6, as stated, fails: the PTY masters are served in the \<^verbatim>\<open>else\<close> branch of the test
  of the CAN socket (line 231). In an iteration in which \<^verbatim>\<open>poll\<close> reports the socket and
  the masters readable, the frame is read and delivered, the inotify descriptor is read,
  and no master is read.
\<close>

theorem CanRxThread_iter_skips_ptys:
  "0 < sint (fst (poll_ret ex_os_busy [Poll 4])) \<and>
   snd (poll_ret ex_os_busy [Poll 4]) 0 \<noteq> 0 \<and>
   snd (poll_ret ex_os_busy [Poll 4]) 1 \<noteq> 0 \<and>
   map_sum fst (\<lambda>(b, s). (b, added ex_state s)) (CanRxThread_iter ex_macros ex_os_busy ex_state) =
     Inr (False, [Poll 4, Read_sock 3, Write_pty 21 [0x41, 0x42, 0x43], Read_inotify 4])"
  by code_simp

text \<open>
  C6, amended. An iteration that completes never ends the loop, and its reads are, in this
  order: when \<^verbatim>\<open>poll\<close> returned more than 0, either the CAN socket alone, if its
  \<^verbatim>\<open>revents\<close> is not 0, or else every PTY master whose \<^verbatim>\<open>revents\<close> is not 0, by
  ascending slot index; then, in every case, the inotify descriptor.
\<close>

theorem CanRxThread_iter_order:
  assumes "CanRxThread_iter m os st = Inr (b, st')"
    and "0 < ports_portptr st" "ports_portptr st \<le> length (ports_VportFd st)"
  shows "\<not> b \<and>
     filter is_read (added st st') =
       (if 0 < sint (fst (poll_ret os (trace st @ [Poll (ports_portptr st)]))) then
          if snd (poll_ret os (trace st @ [Poll (ports_portptr st)])) 0 \<noteq> 0
          then [Read_sock (fd (ports_VportFd st ! 0))]
          else map (\<lambda>i. Read_pty (fd (ports_VportFd st ! i)))
                 (filter (\<lambda>i. snd (poll_ret os (trace st @ [Poll (ports_portptr st)])) i \<noteq> 0)
                    [1..<ports_portptr st])
        else [])
       @ [Read_inotify (Inotify st)]"
proof -
  define ret where "ret = fst (CanRx_poll os st)"
  define st1 where "st1 = snd (CanRx_poll os st)"
  define rev where "rev = snd (poll_ret os (trace st @ [Poll (ports_portptr st)]))"
  have p: "CanRx_poll os st = (ret, st1)" by (simp add: ret_def st1_def)
  have pf: "reads_added st st1 []" "Inotify st1 = Inotify st"
    "ports_portptr st1 = ports_portptr st"
    "ret = fst (poll_ret os (trace st @ [Poll (ports_portptr st)]))"
    using CanRx_poll_frame [of st os] by (simp_all add: ret_def st1_def)
  have cells: "fd (ports_VportFd st1 ! i) = fd (ports_VportFd st ! i)"
    "revents (ports_VportFd st1 ! i) = rev i" if "i < ports_portptr st" for i
    using CanRx_poll_cells [OF that assms(3), of os] by (simp_all add: st1_def rev_def)
  obtain brk st2 where rdy: "CanRx_ready m os ret st1 = Inr (brk, st2)"
    using assms(1) p by (auto simp add: CanRxThread_iter_def split: sum.splits)
  define rs where "rs =
       (if 0 < sint ret then
          if rev 0 \<noteq> 0 then [Read_sock (fd (ports_VportFd st ! 0))]
          else map (\<lambda>i. Read_pty (fd (ports_VportFd st ! i)))
                 (filter (\<lambda>i. rev i \<noteq> 0) [1..<ports_portptr st])
        else [])"
  have r: "\<not> brk \<and> reads_added st1 st2 rs \<and> Inotify st2 = Inotify st1"
  proof (cases "0 < sint ret")
    case False
    then show ?thesis using rdy by (auto simp add: CanRx_ready_def rs_def reads_added_refl)
  next
    case pos: True
    show ?thesis
    proof (cases "rev 0 \<noteq> 0")
      case True
      then have "CanRx_sock m os st1 = Inr (brk, st2)"
        using rdy pos cells(2) [OF assms(2)] by (simp add: CanRx_ready_def)
      then show ?thesis
        using CanRx_sock_reads [of m os st1 brk st2] CanRx_sock_no_break [of m os st1 brk st2]
          pos True cells(1) [OF assms(2)]
        by (simp add: rs_def)
    next
      case False
      then obtain u where t: "CanRx_ptys m os [1..<ports_portptr st1] st1 = Inr (u, st2)"
        and nb: "\<not> brk"
        using rdy pos cells(2) [OF assms(2)]
        by (auto simp add: CanRx_ready_def split: sum.splits)
      have eq: "map (\<lambda>i. Read_pty (fd (ports_VportFd st1 ! i)))
              (filter (\<lambda>i. revents (ports_VportFd st1 ! i) \<noteq> 0) [1..<ports_portptr st1])
            = map (\<lambda>i. Read_pty (fd (ports_VportFd st ! i)))
                 (filter (\<lambda>i. rev i \<noteq> 0) [1..<ports_portptr st])"
      proof -
        have "filter (\<lambda>i. revents (ports_VportFd st1 ! i) \<noteq> 0) [1..<ports_portptr st]
            = filter (\<lambda>i. rev i \<noteq> 0) [1..<ports_portptr st]"
          by (rule filter_cong) (simp_all add: cells)
        moreover have "map (\<lambda>i. Read_pty (fd (ports_VportFd st1 ! i)))
              (filter (\<lambda>i. rev i \<noteq> 0) [1..<ports_portptr st])
            = map (\<lambda>i. Read_pty (fd (ports_VportFd st ! i)))
              (filter (\<lambda>i. rev i \<noteq> 0) [1..<ports_portptr st])"
          by (rule map_cong) (simp_all add: cells)
        ultimately show ?thesis by (simp add: pf(3))
      qed
      show ?thesis
        using CanRx_ptys_reads [OF t] nb pos False unfolding eq by (simp add: rs_def)
    qed
  qed
  then obtain u where ino: "CanRx_inotify m os st2 = Inr (u, st')" and b: "\<not> b"
    using assms(1) p rdy by (auto simp add: CanRxThread_iter_def split: sum.splits)
  have "reads_added st st' (([] @ rs) @ [Read_inotify (Inotify st2)])"
    using reads_added_trans [OF reads_added_trans [OF pf(1)] CanRx_inotify_reads [OF ino]] r
    by blast
  then have "filter is_read (added st st') = rs @ [Read_inotify (Inotify st)]"
    using reads_added_added r pf(2) by simp
  then show ?thesis using b by (simp add: rs_def pf(4) rev_def)
qed

theorem CanRxThread_iter_order_witness:
  "0 < ports_portptr ex_state \<and> ports_portptr ex_state \<le> length (ports_VportFd ex_state) \<and>
   (\<exists>st'. CanRxThread_iter ex_macros ex_os_pty ex_state = Inr (False, st') \<and>
      filter is_read (added ex_state st') = [Read_pty 22, Read_inotify 4]) \<and>
   (\<exists>st'. CanRxThread_iter ex_macros ex_os_busy ex_state = Inr (False, st') \<and>
      filter is_read (added ex_state st') = [Read_sock 3, Read_inotify 4])"
proof -
  have a: "0 < ports_portptr ex_state" by code_simp
  have b: "ports_portptr ex_state \<le> length (ports_VportFd ex_state)" by code_simp
  have 1: "\<exists>st'. CanRxThread_iter ex_macros ex_os_pty ex_state = Inr (False, st') \<and>
      filter is_read (added ex_state st') = [Read_pty 22, Read_inotify 4]"
  proof -
    let ?r = "CanRxThread_iter ex_macros ex_os_pty ex_state"
    have h: "?r = Inr (False, state_of ?r)" by code_simp
    have rhs: "(if 0 < sint (fst (poll_ret ex_os_pty (trace ex_state @ [Poll (ports_portptr ex_state)]))) then
          if snd (poll_ret ex_os_pty (trace ex_state @ [Poll (ports_portptr ex_state)])) 0 \<noteq> 0
          then [Read_sock (fd (ports_VportFd ex_state ! 0))]
          else map (\<lambda>i. Read_pty (fd (ports_VportFd ex_state ! i)))
                 (filter (\<lambda>i. snd (poll_ret ex_os_pty (trace ex_state @ [Poll (ports_portptr ex_state)])) i \<noteq> 0)
                    [1..<ports_portptr ex_state])
        else [])
       @ [Read_inotify (Inotify ex_state)] = [Read_pty 22, Read_inotify 4]"
      by code_simp
    show ?thesis
      using CanRxThread_iter_order [OF h a b] h unfolding rhs by blast
  qed
  have 2: "\<exists>st'. CanRxThread_iter ex_macros ex_os_busy ex_state = Inr (False, st') \<and>
      filter is_read (added ex_state st') = [Read_sock 3, Read_inotify 4]"
  proof -
    let ?r = "CanRxThread_iter ex_macros ex_os_busy ex_state"
    have h: "?r = Inr (False, state_of ?r)" by code_simp
    have rhs: "(if 0 < sint (fst (poll_ret ex_os_busy (trace ex_state @ [Poll (ports_portptr ex_state)]))) then
          if snd (poll_ret ex_os_busy (trace ex_state @ [Poll (ports_portptr ex_state)])) 0 \<noteq> 0
          then [Read_sock (fd (ports_VportFd ex_state ! 0))]
          else map (\<lambda>i. Read_pty (fd (ports_VportFd ex_state ! i)))
                 (filter (\<lambda>i. snd (poll_ret ex_os_busy (trace ex_state @ [Poll (ports_portptr ex_state)])) i \<noteq> 0)
                    [1..<ports_portptr ex_state])
        else [])
       @ [Read_inotify (Inotify ex_state)] = [Read_sock 3, Read_inotify 4]"
      by code_simp
    show ?thesis
      using CanRxThread_iter_order [OF h a b] h unfolding rhs by blast
  qed
  show ?thesis using a b 1 2 by blast
qed

subsection \<open>\<^verbatim>\<open>CanVport\<close>: the port numbers of the reachable tables\<close>

text \<open>
  C7. From the table as \<^verbatim>\<open>CanSockInit\<close> leaves it, three iterations of the worker
  handle three discovery responses and make the slots for the port numbers 1, 2 and 3.
  With no frame from the nodes, 16 invocations of \<^verbatim>\<open>CanPing\<close> use up the credit of
  all three, the cursor being on slot 1 again; the table reached still holds each port
  number once. The next invocation reaps slot 1: the table reached holds the port number 2
  twice (cell 0 is the unused one), so a reachable table has two entries for one port
  number.
\<close>

theorem duplicate_port_reachable:
  "reachable ex_macros ex_os_discover (state_of (ex_run 16)) \<and>
   map port (table (state_of (ex_run 16))) = [0, 1, 2, 3] \<and>
   ports_distinct (state_of (ex_run 16)) \<and>
   reachable ex_macros ex_os_discover (state_of (ex_run 17)) \<and>
   map port (table (state_of (ex_run 17))) = [0, 2, 2] \<and>
   \<not> ports_distinct (state_of (ex_run 17))"
proof -
  let ?w = "CanRxThread_iters ex_macros ex_os_discover 3 ex_init"
  have w: "?w = Inr ((), state_of ?w)" by code_simp
  have r0: "reachable ex_macros ex_os_discover (state_of ?w)"
    using reachable_iters [OF _ w] reachable.start [of ex_macros ex_os_discover 3 4 "\<lambda>i. ex_cell"]
    by (simp add: ex_init_def)
  have run: "ex_run n = CanPing_times ex_macros ex_os_discover n (state_of ?w)" for n
    unfolding ex_run_def by (subst w) simp
  have e16: "ex_run 16 = Inr ((), state_of (ex_run 16))" by code_simp
  have e17: "ex_run 17 = Inr ((), state_of (ex_run 17))" by code_simp
  have r16: "reachable ex_macros ex_os_discover (state_of (ex_run 16))"
    using reachable_pings [OF r0, of 16] e16 unfolding run by simp
  have r17: "reachable ex_macros ex_os_discover (state_of (ex_run 17))"
    using reachable_pings [OF r0, of 17] e17 unfolding run by simp
  have p16: "map port (table (state_of (ex_run 16))) = [0, 1, 2, 3]" by code_simp
  have p17: "map port (table (state_of (ex_run 17))) = [0, 2, 2]" by code_simp
  have d16: "ports_distinct (state_of (ex_run 16))" by code_simp
  have d17: "\<not> ports_distinct (state_of (ex_run 17))" by code_simp
  show ?thesis using r16 r17 p16 p17 d16 d17 by blast
qed

end
